theory Spec2Isabelle
  imports Main
begin

section \<open>The Tic-Tac-Toe environment of gym/envs/board\_game/tictactoe.py\<close>

subsection \<open>Faults\<close>

text \<open>
  Every exception the module can raise is a value. The five \<open>Error_*\<close> constructors are
  the five \<open>raise error.Error(...)\<close> sites of the file, one per message; the others are the
  Python built-in exceptions that the statements of the file raise by themselves:
  a failed \<open>assert\<close>, a read of an attribute that was never assigned, an index outside an
  array or list, \<open>None // 3\<close>, and the bare \<open>raise\<close> statement executed while no
  exception is being handled (RuntimeError: No active exception to reraise).
\<close>

datatype error =
    Error_player_color string
  | Error_unrecognized_opponent string
  | Error_observation_type string
  | Error_illegal_move_mode string
  | Error_both_players_win
  | AssertionError
  | AttributeError
  | IndexError
  | TypeError
  | RuntimeError

subsection \<open>The board: a 3 x 3 x 3 array of int8 cells\<close>

text \<open>
  \<open>board[layer, row, col]\<close>. The cells are numpy int8; the code only ever stores 0 and 1
  in them, and the arithmetic of \<open>game_finished\<close> on such cells (products of three cells,
  sums of eight products) stays far inside int8, so a cell is modelled by its value.
\<close>

type_synonym board = "int list list list"

abbreviation CIRCLE :: int where "CIRCLE \<equiv> 0"
abbreviation CROSS :: int where "CROSS \<equiv> 1"

text \<open>
  One index of a numpy subscript on an axis of size \<open>n\<close>: a negative index counts from the
  end, anything outside \<open>[-n, n)\<close> raises IndexError.
\<close>

definition index_axis :: "nat \<Rightarrow> int \<Rightarrow> error + nat" where
  "index_axis n i =
     (if 0 \<le> i \<and> i < int n then Inr (nat i)
      else if - int n \<le> i \<and> i < 0 then Inr (nat (i + int n))
      else Inl IndexError)"

text \<open>\<open>board[l, r, c]\<close> as an expression.\<close>

definition getitem :: "board \<Rightarrow> int \<Rightarrow> int \<Rightarrow> int \<Rightarrow> error + int" where
  "getitem board l r c =
     (case index_axis (length board) l of
        Inl e \<Rightarrow> Inl e
      | Inr l' \<Rightarrow>
          (case index_axis (length (board ! l')) r of
             Inl e \<Rightarrow> Inl e
           | Inr r' \<Rightarrow>
               (case index_axis (length (board ! l' ! r')) c of
                  Inl e \<Rightarrow> Inl e
                | Inr c' \<Rightarrow> Inr (board ! l' ! r' ! c'))))"

text \<open>\<open>board[l, r, c] = v\<close>: the array after the assignment, or the fault.\<close>

definition setitem :: "board \<Rightarrow> int \<Rightarrow> int \<Rightarrow> int \<Rightarrow> int \<Rightarrow> error + board" where
  "setitem board l r c v =
     (case index_axis (length board) l of
        Inl e \<Rightarrow> Inl e
      | Inr l' \<Rightarrow>
          (case index_axis (length (board ! l')) r of
             Inl e \<Rightarrow> Inl e
           | Inr r' \<Rightarrow>
               (case index_axis (length (board ! l' ! r')) c of
                  Inl e \<Rightarrow> Inl e
                | Inr c' \<Rightarrow>
                    Inr (board[l' := (board ! l')[r' := (board ! l' ! r')[c' := v]]]))))"

subsection \<open>The static methods of TicTacToeEnv\<close>

definition coordinate_to_action :: "board \<Rightarrow> int \<times> int \<Rightarrow> int" where
  "coordinate_to_action board coords = fst coords * 3 + snd coords"

text \<open>Python's \<open>//\<close> and \<open>%\<close> round towards minus infinity, as \<open>div\<close> and \<open>mod\<close> on int do.\<close>

definition action_to_coordinate :: "board \<Rightarrow> int \<Rightarrow> int \<times> int" where
  "action_to_coordinate board action = (action div 3, action mod 3)"

definition valid_move :: "board \<Rightarrow> int \<Rightarrow> error + bool" where
  "valid_move board action =
     (let coords = action_to_coordinate board action in
      case getitem board 2 (fst coords) (snd coords) of
        Inl e \<Rightarrow> Inl e
      | Inr v \<Rightarrow> if v = 1 then Inr True else Inr False)"

text \<open>
  \<open>make_move\<close> mutates the array in place with two assignments. The model returns the
  array as the call leaves it together with the fault, if one was raised: a fault in the
  second assignment leaves the first one done.
\<close>

definition make_move :: "board \<Rightarrow> int \<Rightarrow> int \<Rightarrow> error option \<times> board" where
  "make_move board action player =
     (let coords = action_to_coordinate board action in
      case setitem board 2 (fst coords) (snd coords) 0 of
        Inl e \<Rightarrow> (Some e, board)
      | Inr board1 \<Rightarrow>
          (case setitem board1 player (fst coords) (snd coords) 1 of
             Inl e \<Rightarrow> (Some e, board1)
           | Inr board2 \<Rightarrow> (None, board2)))"

text \<open>
  \<open>board[2, :, :]\<close> raises IndexError when the array has fewer than three layers; the
  slices never fail. \<open>np.where(... == 1)\<close> lists the coordinates of the cells of that
  layer that hold 1 in row-major order; the comprehension maps each to its action.
\<close>

definition get_possible_actions :: "board \<Rightarrow> error + int list" where
  "get_possible_actions board =
     (case index_axis (length board) 2 of
        Inl e \<Rightarrow> Inl e
      | Inr l \<Rightarrow>
          Inr (map (\<lambda>(x, y). coordinate_to_action board (int x, int y))
                 (concat (map (\<lambda>x. map (\<lambda>y. (x, y))
                    (filter (\<lambda>y. board ! l ! x ! y = 1) [0 ..< length (board ! l ! x)]))
                    [0 ..< length (board ! l)]))))"

definition win_lines :: "(int \<times> int) list list" where
  "win_lines =
     [[(0, 0), (0, 1), (0, 2)], [(1, 0), (1, 1), (1, 2)], [(2, 0), (2, 1), (2, 2)],
      [(0, 0), (1, 0), (2, 0)], [(0, 1), (1, 1), (2, 1)], [(0, 2), (1, 2), (2, 2)],
      [(0, 0), (1, 1), (2, 2)], [(0, 2), (1, 1), (2, 0)]]"

text \<open>The inner loop \<open>for pos in line\<close>, on the pair (curxwin, curowin).\<close>

fun line_products :: "board \<Rightarrow> (int \<times> int) list \<Rightarrow> int \<times> int \<Rightarrow> error + (int \<times> int)" where
  "line_products board [] (curxwin, curowin) = Inr (curxwin, curowin)"
| "line_products board (pos # line) (curxwin, curowin) =
     (case getitem board 0 (fst pos) (snd pos) of
        Inl e \<Rightarrow> Inl e
      | Inr o_cell \<Rightarrow>
          (case getitem board 1 (fst pos) (snd pos) of
             Inl e \<Rightarrow> Inl e
           | Inr x_cell \<Rightarrow> line_products board line (curxwin * x_cell, curowin * o_cell)))"

text \<open>The outer loop \<open>for line in win_lines\<close>, on the pair (xwin, owin).\<close>

fun count_wins :: "board \<Rightarrow> (int \<times> int) list list \<Rightarrow> int \<times> int \<Rightarrow> error + (int \<times> int)" where
  "count_wins board [] (xwin, owin) = Inr (xwin, owin)"
| "count_wins board (line # lines) (xwin, owin) =
     (case line_products board line (1, 1) of
        Inl e \<Rightarrow> Inl e
      | Inr (curxwin, curowin) \<Rightarrow> count_wins board lines (xwin + curxwin, owin + curowin))"

text \<open>Returns 1 if circle wins, -1 if cross wins and 0 otherwise.\<close>

definition game_finished :: "board \<Rightarrow> error + int" where
  "game_finished board =
     (case count_wins board win_lines (0, 0) of
        Inl e \<Rightarrow> Inl e
      | Inr (xwin, owin) \<Rightarrow>
          if xwin = 0 \<and> owin = 0 then Inr 0
          else if xwin > 0 \<and> owin = 0 then Inr (- 1)
          else if xwin = 0 \<and> owin > 0 then Inr 1
          else Inl Error_both_players_win)"

subsection \<open>The opponent and the random source\<close>

text \<open>
  The constructor's \<open>opponent\<close> argument is a string or a callable from the board to an
  action or None. numpy's generator and \<open>gym.utils.seeding\<close> are not part of this module:
  the generator is a value of a type \<open>'g\<close>, and the two operations the module calls on it
  are parameters of the model:
  \<^item> \<open>randint g n\<close>, for \<open>np_random.randint(n)\<close>: the number drawn and the generator after
    the draw;
  \<^item> \<open>np_random seed\<close>, for \<open>seeding.np_random(seed)\<close>: the fresh generator and the seed
    used, or the fault.
  \<open>opponent_policy\<close> is bound by \<open>_seed\<close> either to the closure made by
  \<open>make_random_policy\<close>, which holds the generator (the very object \<open>self.np_random\<close>
  refers to; nothing in the module reads that attribute again, so the generator is kept
  with the closure), or to the callable itself.
\<close>

datatype opponent = Opponent_str string | Opponent_callable "board \<Rightarrow> int option"

datatype 'g bound_policy = Bound_random 'g | Bound_callable "board \<Rightarrow> int option"

text \<open>
  The closure \<open>random_policy\<close> returned by \<open>make_random_policy(np_random)\<close>. numpy's
  \<open>randint(n)\<close> draws below \<open>n\<close>; for a \<open>randint\<close> that does not, the list subscript
  raises IndexError.
\<close>

definition random_policy ::
  "('g \<Rightarrow> nat \<Rightarrow> nat \<times> 'g) \<Rightarrow> 'g \<Rightarrow> board \<Rightarrow> (error + int option) \<times> 'g" where
  "random_policy randint np_random state =
     (case get_possible_actions state of
        Inl e \<Rightarrow> (Inl e, np_random)
      | Inr possible_moves \<Rightarrow>
          if length possible_moves = 0 then (Inr None, np_random)
          else (case randint np_random (length possible_moves) of
                  (a, np_random') \<Rightarrow>
                    if a < length possible_moves
                    then (Inr (Some (possible_moves ! a)), np_random')
                    else (Inl IndexError, np_random')))"

subsection \<open>The environment object\<close>

text \<open>
  The attributes of a TicTacToeEnv. \<open>opponent_policy\<close> is None until \<open>_seed\<close> has
  assigned it. \<open>to_play\<close> and \<open>player_color\<close> are CIRCLE or CROSS. The rewards the
  module returns are 0., -1. and the integers of \<open>game_finished\<close>; they are modelled by
  their integer value. The methods \<open>__init__\<close>, \<open>_seed\<close>, \<open>_reset\<close> and \<open>_step\<close> are
  \<open>env_init\<close>, \<open>env_seed\<close>, \<open>env_reset\<close> and \<open>env_step\<close>; the public \<open>seed\<close>,
  \<open>reset\<close> and \<open>step\<close> of gym.Env call them. A method mutates the object in place: the
  model returns the object as the call leaves it, next to the result or the fault.
\<close>

record 'g env =
  player_color :: int
  opponent :: opponent
  observation_type :: string
  illegal_move_mode :: string
  opponent_policy :: "'g bound_policy option"
  state :: board
  to_play :: int
  "done" :: bool

text \<open>What \<open>_step\<close> returns: the board, the reward, done, and the board of the info dict.\<close>

type_synonym step_result = "board \<times> int \<times> bool \<times> board"

text \<open>\<open>self.opponent_policy(self.state)\<close>: the action or None, or the fault.\<close>

definition call_opponent_policy ::
  "('g \<Rightarrow> nat \<Rightarrow> nat \<times> 'g) \<Rightarrow> 'g env \<Rightarrow> (error + int option) \<times> 'g env" where
  "call_opponent_policy randint self =
     (case opponent_policy self of
        None \<Rightarrow> (Inl AttributeError, self)
      | Some (Bound_random g) \<Rightarrow>
          (case random_policy randint g (state self) of
             (r, g') \<Rightarrow> (r, self\<lparr>opponent_policy := Some (Bound_random g')\<rparr>))
      | Some (Bound_callable f) \<Rightarrow> (Inr (f (state self)), self))"

text \<open>
  \<open>_seed\<close>. The generator that \<open>seeding.np_random\<close> makes is bound into a new random
  policy when the opponent is the string 'random'; an opponent given as a callable is bound
  as it is. The list returned holds the seed used.
\<close>

definition env_seed ::
  "(int option \<Rightarrow> error + ('g \<times> int)) \<Rightarrow> 'g env \<Rightarrow> int option \<Rightarrow> (error + int list) \<times> 'g env" where
  "env_seed np_random self seed =
     (case np_random seed of
        Inl e \<Rightarrow> (Inl e, self)
      | Inr (g, seed') \<Rightarrow>
          (case opponent self of
             Opponent_str name \<Rightarrow>
               if name = ''random''
               then (Inr [seed'], self\<lparr>opponent_policy := Some (Bound_random g)\<rparr>)
               else (Inl (Error_unrecognized_opponent name), self)
           | Opponent_callable f \<Rightarrow>
               (Inr [seed'], self\<lparr>opponent_policy := Some (Bound_callable f)\<rparr>)))"

text \<open>The array \<open>_reset\<close> makes: \<open>np.zeros((3, 3, 3))\<close> with layer 2 set to 1.\<close>

definition empty_board :: board where
  "empty_board = (replicate 3 (replicate 3 (replicate 3 0)))[2 := replicate 3 (replicate 3 1)]"

text \<open>
  \<open>_reset\<close>. The opening move of the opponent: \<open>make_move\<close> computes \<open>a // 3\<close> first,
  which raises TypeError when the policy returned None.
\<close>

definition env_reset ::
  "('g \<Rightarrow> nat \<Rightarrow> nat \<times> 'g) \<Rightarrow> 'g env \<Rightarrow> (error + board) \<times> 'g env" where
  "env_reset randint self0 =
     (let self = self0\<lparr>state := empty_board, to_play := CIRCLE, done := False\<rparr> in
      if player_color self \<noteq> to_play self then
        (case call_opponent_policy randint self of
           (Inl e, self1) \<Rightarrow> (Inl e, self1)
         | (Inr None, self1) \<Rightarrow> (Inl TypeError, self1)
         | (Inr (Some a), self1) \<Rightarrow>
             (case make_move (state self1) a CIRCLE of
                (Some e, b) \<Rightarrow> (Inl e, self1\<lparr>state := b\<rparr>)
              | (None, b) \<Rightarrow>
                  (let self2 = self1\<lparr>state := b, to_play := CROSS\<rparr>
                   in (Inr (state self2), self2))))
      else (Inr (state self), self))"

text \<open>The last four statements of \<open>_step\<close>: the reward, done, and the return.\<close>

definition step_reward :: "'g env \<Rightarrow> (error + step_result) \<times> 'g env" where
  "step_reward self =
     (case game_finished (state self) of
        Inl e \<Rightarrow> (Inl e, self)
      | Inr r \<Rightarrow>
          (let reward = (if player_color self = CROSS then - r else r);
               self1 = self\<lparr>done := (reward \<noteq> 0)\<rparr>
           in (Inr (state self1, reward, done self1, state self1), self1)))"

text \<open>
  \<open>_step\<close>. Every path returns the object as it leaves it, with the result or the fault.
  In the condition \<open>a is not None and game_finished(self.state) == 0\<close> the second operand
  is evaluated only when the first holds.
\<close>

definition env_step ::
  "('g \<Rightarrow> nat \<Rightarrow> nat \<times> 'g) \<Rightarrow> 'g env \<Rightarrow> int \<Rightarrow> (error + step_result) \<times> 'g env" where
  "env_step randint self action =
     (if to_play self \<noteq> player_color self then (Inl AssertionError, self)
      else if done self then (Inr (state self, 0, True, state self), self)
      else
        (case valid_move (state self) action of
           Inl e \<Rightarrow> (Inl e, self)
         | Inr False \<Rightarrow>
             if illegal_move_mode self = ''raise'' then (Inl RuntimeError, self)
             else if illegal_move_mode self = ''lose'' then
               (let self1 = self\<lparr>done := True\<rparr>
                in (Inr (state self1, - 1, True, state self1), self1))
             else (Inl (Error_illegal_move_mode (illegal_move_mode self)), self)
         | Inr True \<Rightarrow>
             (case make_move (state self) action (player_color self) of
                (Some e, b) \<Rightarrow> (Inl e, self\<lparr>state := b\<rparr>)
              | (None, b) \<Rightarrow>
                  (case call_opponent_policy randint (self\<lparr>state := b\<rparr>) of
                     (Inl e, self1) \<Rightarrow> (Inl e, self1)
                   | (Inr None, self1) \<Rightarrow> step_reward self1
                   | (Inr (Some a), self1) \<Rightarrow>
                       (case game_finished (state self1) of
                          Inl e \<Rightarrow> (Inl e, self1)
                        | Inr r \<Rightarrow>
                            if r = 0 then
                              (case make_move (state self1) a (1 - player_color self1) of
                                 (Some e, b') \<Rightarrow> (Inl e, self1\<lparr>state := b'\<rparr>)
                               | (None, b') \<Rightarrow> step_reward (self1\<lparr>state := b'\<rparr>))
                            else step_reward self1)))))"

text \<open>
  \<open>__init__\<close>. The object exists before its attributes do: \<open>state\<close>, \<open>to_play\<close> and
  \<open>done\<close> are first assigned by the \<open>reset\<close> call, which overwrites them before it
  reads them, so the values they start with here are never seen; \<open>opponent_policy\<close> is
  unassigned until \<open>_seed\<close> runs, which is after \<open>reset\<close>.
\<close>

definition colormap :: "string \<Rightarrow> int option" where
  "colormap = [''circle'' \<mapsto> CIRCLE, ''cross'' \<mapsto> CROSS]"

definition env_init ::
  "('g \<Rightarrow> nat \<Rightarrow> nat \<times> 'g) \<Rightarrow> (int option \<Rightarrow> error + ('g \<times> int)) \<Rightarrow>
   string \<Rightarrow> opponent \<Rightarrow> string \<Rightarrow> string \<Rightarrow> error + 'g env" where
  "env_init randint np_random player_color_arg opponent_arg observation_type_arg illegal_move_mode_arg =
     (case colormap player_color_arg of
        None \<Rightarrow> Inl (Error_player_color player_color_arg)
      | Some color \<Rightarrow>
          if observation_type_arg \<notin> set [''numpy3c''] then Inl AssertionError
          else if illegal_move_mode_arg \<notin> set [''lose'', ''raise''] then Inl AssertionError
          else if observation_type_arg \<noteq> ''numpy3c''
            then Inl (Error_observation_type observation_type_arg)
          else
            (case env_reset randint
                    \<lparr>player_color = color, opponent = opponent_arg,
                     observation_type = observation_type_arg,
                     illegal_move_mode = illegal_move_mode_arg,
                     opponent_policy = None, state = [], to_play = CIRCLE, done = False\<rparr> of
               (Inl e, self) \<Rightarrow> Inl e
             | (Inr observation, self) \<Rightarrow>
                 (case env_seed np_random self None of
                    (Inl e, self1) \<Rightarrow> Inl e
                  | (Inr seeds, self1) \<Rightarrow> Inr self1)))"

subsection \<open>Sequences of steps\<close>

text \<open>
  The outcomes of a sequence of \<open>step\<close> calls and the session after them, and the
  session reached by \<open>reset\<close> followed by such a sequence. A call that raises leaves the
  session as the fault found it, and the caller goes on with it.
\<close>

fun run_steps ::
  "('g \<Rightarrow> nat \<Rightarrow> nat \<times> 'g) \<Rightarrow> 'g env \<Rightarrow> int list \<Rightarrow> (error + step_result) list \<times> 'g env" where
  "run_steps randint self [] = ([], self)"
| "run_steps randint self (a # as) =
     (case env_step randint self a of
        (r, self1) \<Rightarrow>
          (case run_steps randint self1 as of (rs, self2) \<Rightarrow> (r # rs, self2)))"

definition reached :: "('g \<Rightarrow> nat \<Rightarrow> nat \<times> 'g) \<Rightarrow> 'g env \<Rightarrow> int list \<Rightarrow> 'g env" where
  "reached randint self0 as = snd (run_steps randint (snd (env_reset randint self0)) as)"

section \<open>Vocabulary of the properties\<close>

text \<open>The shape (3, 3, 3) that every array made by \<open>_reset\<close> has.\<close>

definition shape3 :: "board \<Rightarrow> bool" where
  "shape3 b \<longleftrightarrow>
     length b = 3 \<and>
     list_all (\<lambda>layer. length layer = 3 \<and> list_all (\<lambda>row. length row = 3) layer) b"

text \<open>Every cell holds 0 or 1.\<close>

definition binary :: "board \<Rightarrow> bool" where
  "binary b \<longleftrightarrow> list_all (list_all (list_all (\<lambda>v. v = 0 \<or> v = 1))) b"

text \<open>The array after \<open>b[l, r, c] = v\<close> with indices in range.\<close>

definition upd :: "board \<Rightarrow> nat \<Rightarrow> nat \<Rightarrow> nat \<Rightarrow> int \<Rightarrow> board" where
  "upd b l r c v = b[l := (b ! l)[r := (b ! l ! r)[c := v]]]"

text \<open>
  The row and column that an action in \<open>[-9, 9)\<close> addresses, after numpy has resolved a
  negative row index.
\<close>

definition row_of :: "int \<Rightarrow> nat" where
  "row_of a = nat ((a div 3) mod 3)"

definition col_of :: "int \<Rightarrow> nat" where
  "col_of a = nat (a mod 3)"

text \<open>
  The eight winning lines as the specification lists them: three rows, three columns, two
  diagonals, each a list of (row, column) coordinates.
\<close>

definition row_line :: "int \<Rightarrow> (int \<times> int) list" where
  "row_line r = [(r, 0), (r, 1), (r, 2)]"

definition column_line :: "int \<Rightarrow> (int \<times> int) list" where
  "column_line c = [(0, c), (1, c), (2, c)]"

definition diagonal_lines :: "(int \<times> int) list list" where
  "diagonal_lines = [[(0, 0), (1, 1), (2, 2)], [(0, 2), (1, 1), (2, 0)]]"

definition eight_lines :: "(int \<times> int) list list" where
  "eight_lines = map row_line [0, 1, 2] @ map column_line [0, 1, 2] @ diagonal_lines"

text \<open>
  A line is won by a player (0 for Circle, 1 for Cross) when all its cells carry the
  player's marker; a player has a line when one of the eight lines is won by it.
\<close>

definition line_won :: "board \<Rightarrow> nat \<Rightarrow> (int \<times> int) list \<Rightarrow> bool" where
  "line_won b player line \<longleftrightarrow> list_all (\<lambda>(r, c). b ! player ! nat r ! nat c = 1) line"

definition has_line :: "board \<Rightarrow> nat \<Rightarrow> bool" where
  "has_line b player \<longleftrightarrow> list_ex (line_won b player) eight_lines"

text \<open>The coordinates of a line lie on the 3 x 3 grid.\<close>

definition in_grid :: "(int \<times> int) list \<Rightarrow> bool" where
  "in_grid line \<longleftrightarrow> list_all (\<lambda>(r, c). 0 \<le> r \<and> r < 3 \<and> 0 \<le> c \<and> c < 3) line"

text \<open>
  The one-hot encoding: in a cell exactly one of the three layers holds 1 and the other
  two hold 0; a board is one-hot when it has the shape (3, 3, 3) and each of its nine
  cells is.
\<close>

definition one_hot_cell :: "board \<Rightarrow> nat \<Rightarrow> nat \<Rightarrow> bool" where
  "one_hot_cell b r c \<longleftrightarrow>
     (b ! 0 ! r ! c = 1 \<and> b ! 1 ! r ! c = 0 \<and> b ! 2 ! r ! c = 0) \<or>
     (b ! 0 ! r ! c = 0 \<and> b ! 1 ! r ! c = 1 \<and> b ! 2 ! r ! c = 0) \<or>
     (b ! 0 ! r ! c = 0 \<and> b ! 1 ! r ! c = 0 \<and> b ! 2 ! r ! c = 1)"

definition cells :: "(nat \<times> nat) list" where
  "cells = List.product [0 ..< 3] [0 ..< 3]"

definition one_hot :: "board \<Rightarrow> bool" where
  "one_hot b \<longleftrightarrow> shape3 b \<and> list_all (\<lambda>(r, c). one_hot_cell b r c) cells"

text \<open>The number of cells that carry a mark of Circle or of Cross.\<close>

definition marked_cells :: "board \<Rightarrow> nat" where
  "marked_cells b = length (filter (\<lambda>(r, c). b ! 0 ! r ! c = 1 \<or> b ! 1 ! r ! c = 1) cells)"

text \<open>
  The contract of an opponent given as a callable: on a one-hot board it returns a legal
  action or None. The built-in random policy meets it by construction, and an unbound
  policy never moves.
\<close>

definition legal_policy :: "(board \<Rightarrow> int option) \<Rightarrow> bool" where
  "legal_policy f \<longleftrightarrow> (\<forall>b a. one_hot b \<and> f b = Some a \<longrightarrow> valid_move b a = Inr True)"

definition policy_ok :: "'g env \<Rightarrow> bool" where
  "policy_ok self \<longleftrightarrow>
     (case opponent_policy self of
        Some (Bound_callable f) \<Rightarrow> legal_policy f
      | _ \<Rightarrow> True)"

text \<open>The side of the agent is one of the two values of the constructor's colormap.\<close>

definition color_ok :: "'g env \<Rightarrow> bool" where
  "color_ok self \<longleftrightarrow> player_color self = CIRCLE \<or> player_color self = CROSS"

text \<open>The invariant of a session under \<open>reset\<close> and \<open>step\<close>.\<close>

definition well_formed :: "'g env \<Rightarrow> bool" where
  "well_formed self \<longleftrightarrow> one_hot (state self) \<and> color_ok self \<and> policy_ok self"

text \<open>
  The action addresses a cell of the board, and that cell is not empty: its value in the
  empty layer is not 1.
\<close>

definition target_not_empty :: "board \<Rightarrow> int \<Rightarrow> bool" where
  "target_not_empty b a \<longleftrightarrow> - 9 \<le> a \<and> a < 9 \<and> b ! 2 ! row_of a ! col_of a \<noteq> 1"

text \<open>In a session that is done it is the agent's turn: the \<open>assert\<close> of \<open>_step\<close> holds.\<close>

definition turn_ok :: "'g env \<Rightarrow> bool" where
  "turn_ok self \<longleftrightarrow> (done self \<longrightarrow> to_play self = player_color self)"

text \<open>The number of cells that carry the mark of the given layer.\<close>

definition marks_of :: "nat \<Rightarrow> board \<Rightarrow> nat" where
  "marks_of layer b = length (filter (\<lambda>(r, c). b ! layer ! r ! c = 1) cells)"

text \<open>
  The opponent can open the game: its policy is bound, and on the empty board the random
  policy's draw from 9 is below 9 (as numpy's \<open>randint(9)\<close> is), or the callable returns
  an action that addresses a cell.
\<close>

definition opening_ok :: "('g \<Rightarrow> nat \<Rightarrow> nat \<times> 'g) \<Rightarrow> 'g env \<Rightarrow> bool" where
  "opening_ok randint self \<longleftrightarrow>
     (case opponent_policy self of
        None \<Rightarrow> False
      | Some (Bound_random g) \<Rightarrow> fst (randint g 9) < 9
      | Some (Bound_callable f) \<Rightarrow>
          (case f empty_board of None \<Rightarrow> False | Some a \<Rightarrow> - 9 \<le> a \<and> a < 9))"

section \<open>Example data\<close>

text \<open>
  Boards for the examples: Circle holds row 0 and Cross has no line; Circle holds row 0
  and Cross row 1; a full board without a line.
\<close>

definition row0_circle_board :: board where
  "row0_circle_board =
     [[[1, 1, 1], [0, 0, 0], [0, 0, 0]],
      [[0, 0, 0], [1, 1, 0], [0, 0, 0]],
      [[0, 0, 0], [0, 0, 1], [1, 1, 1]]]"

definition both_win_board :: board where
  "both_win_board =
     [[[1, 1, 1], [0, 0, 0], [0, 0, 0]],
      [[0, 0, 0], [1, 1, 1], [0, 0, 0]],
      [[0, 0, 0], [0, 0, 0], [1, 1, 1]]]"

text \<open>
  A generator for the examples: \<open>randint\<close> always draws 0, so the random policy takes the
  first free cell in row-major order.
\<close>

definition first_free :: "unit \<Rightarrow> nat \<Rightarrow> nat \<times> unit" where
  "first_free g n = (0, g)"

definition circle_vs_random :: "unit env" where
  "circle_vs_random =
     \<lparr>player_color = CIRCLE, opponent = Opponent_str ''random'',
      observation_type = ''numpy3c'', illegal_move_mode = ''lose'',
      opponent_policy = Some (Bound_random ()), state = empty_board,
      to_play = CIRCLE, done = False\<rparr>"

definition circle_vs_random_raise :: "unit env" where
  "circle_vs_random_raise = circle_vs_random\<lparr>illegal_move_mode := ''raise''\<rparr>"

text \<open>
  An opponent given as a callable, for the examples: it answers the agent's first four
  moves with the cells 1, 4, 5 and 6 and has no move once the board is full.
\<close>

definition scripted_opponent :: "board \<Rightarrow> int option" where
  "scripted_opponent b =
     (let n = marked_cells b in
      if n = 1 then Some 1 else if n = 3 then Some 4 else if n = 5 then Some 5
      else if n = 7 then Some 6 else None)"

text \<open>A seeding function for the examples: the generator has one state.\<close>

definition unit_np_random :: "int option \<Rightarrow> error + (unit \<times> int)" where
  "unit_np_random seed = Inr ((), case seed of None \<Rightarrow> 0 | Some k \<Rightarrow> k)"

definition draw_board :: board where
  "draw_board =
     [[[1, 0, 1], [1, 0, 0], [0, 1, 1]],
      [[0, 1, 0], [0, 1, 1], [1, 0, 0]],
      [[0, 0, 0], [0, 0, 0], [0, 0, 0]]]"

definition draw_game :: "string \<Rightarrow> (error + step_result) list \<times> unit env" where
  "draw_game mode =
     (case env_init first_free unit_np_random ''circle'' (Opponent_callable scripted_opponent)
             ''numpy3c'' mode of
        Inl e \<Rightarrow> ([Inl e], circle_vs_random)
      | Inr self \<Rightarrow> run_steps first_free self [0, 2, 3, 7, 8])"

text \<open>
  A generator with a state that matters, for the examples: the state is a number, a draw
  from \<open>n\<close> values is the state modulo \<open>n\<close>, and the state moves on linearly. The two
  seeding functions agree on every given seed and differ when no seed is given, as two
  readings of the system's entropy do.
\<close>

definition lcg_randint :: "nat \<Rightarrow> nat \<Rightarrow> nat \<times> nat" where
  "lcg_randint g n = (g mod n, (5 * g + 3) mod 64)"

definition np_random_a :: "int option \<Rightarrow> error + (nat \<times> int)" where
  "np_random_a seed = (case seed of None \<Rightarrow> Inr (1, 1) | Some k \<Rightarrow> Inr (nat k, k))"

definition np_random_b :: "int option \<Rightarrow> error + (nat \<times> int)" where
  "np_random_b seed = (case seed of None \<Rightarrow> Inr (6, 6) | Some k \<Rightarrow> Inr (nat k, k))"

definition cross_vs_random :: "unit env" where
  "cross_vs_random = circle_vs_random\<lparr>player_color := CROSS\<rparr>"

text \<open>
  The object as \<open>__init__\<close> holds it when it calls \<open>reset\<close> for
  \<open>TicTacToeEnv('cross', 'random', 'numpy3c', 'lose')\<close>: \<open>_seed\<close> has not run yet.
\<close>

definition cross_before_seed :: "unit env" where
  "cross_before_seed =
     \<lparr>player_color = CROSS, opponent = Opponent_str ''random'',
      observation_type = ''numpy3c'', illegal_move_mode = ''lose'',
      opponent_policy = None, state = [], to_play = CIRCLE, done = False\<rparr>"

section \<open>Lemmas\<close>

subsection \<open>Indexing an array of shape (3, 3, 3)\<close>

lemma index_axis_3: "- 3 \<le> i \<Longrightarrow> i < 3 \<Longrightarrow> index_axis 3 i = Inr (nat (i mod 3))"
  unfolding index_axis_def by (auto simp: nat_eq_iff) presburger+

lemma index_axis_3_out: "\<not> (- 3 \<le> i \<and> i < 3) \<Longrightarrow> index_axis 3 i = Inl IndexError"
  unfolding index_axis_def by auto

lemma shape3_iff:
  "shape3 b \<longleftrightarrow>
     length b = 3 \<and> (\<forall>l<3. length (b ! l) = 3 \<and> (\<forall>r<3. length (b ! l ! r) = 3))"
  unfolding shape3_def by (auto simp: list_all_length)

lemma shape3_len: "shape3 b \<Longrightarrow> length b = 3"
  by (simp add: shape3_iff)

lemma shape3_len2: "shape3 b \<Longrightarrow> l < 3 \<Longrightarrow> length (b ! l) = 3"
  by (simp add: shape3_iff)

lemma shape3_len3: "shape3 b \<Longrightarrow> l < 3 \<Longrightarrow> r < 3 \<Longrightarrow> length (b ! l ! r) = 3"
  by (simp add: shape3_iff)

lemma mod3_lt: "nat (i mod 3) < 3"
  by (simp add: nat_less_iff)

lemma row_of_lt: "row_of a < 3"
  unfolding row_of_def by (rule mod3_lt)

lemma col_of_lt: "col_of a < 3"
  unfolding col_of_def by (rule mod3_lt)

lemma getitem_shape3:
  assumes "shape3 b" "- 3 \<le> l" "l < 3" "- 3 \<le> r" "r < 3" "- 3 \<le> c" "c < 3"
  shows "getitem b l r c = Inr (b ! nat (l mod 3) ! nat (r mod 3) ! nat (c mod 3))"
  using assms unfolding getitem_def
  by (simp add: shape3_len shape3_len2 shape3_len3 index_axis_3 mod3_lt)

lemma getitem_shape3_out:
  assumes "shape3 b" "- 3 \<le> l" "l < 3" "\<not> (- 3 \<le> r \<and> r < 3)"
  shows "getitem b l r c = Inl IndexError"
  using assms unfolding getitem_def
  by (simp add: shape3_len shape3_len2 index_axis_3 index_axis_3_out mod3_lt)

lemma setitem_shape3:
  assumes "shape3 b" "- 3 \<le> l" "l < 3" "- 3 \<le> r" "r < 3" "- 3 \<le> c" "c < 3"
  shows "setitem b l r c v = Inr (upd b (nat (l mod 3)) (nat (r mod 3)) (nat (c mod 3)) v)"
  using assms unfolding setitem_def upd_def
  by (simp add: shape3_len shape3_len2 shape3_len3 index_axis_3 mod3_lt)

lemma setitem_shape3_out:
  assumes "shape3 b" "- 3 \<le> l" "l < 3" "\<not> (- 3 \<le> r \<and> r < 3)"
  shows "setitem b l r c v = Inl IndexError"
  using assms unfolding setitem_def
  by (simp add: shape3_len shape3_len2 index_axis_3 index_axis_3_out mod3_lt)

lemma shape3_upd: "shape3 b \<Longrightarrow> l < 3 \<Longrightarrow> r < 3 \<Longrightarrow> shape3 (upd b l r c v)"
  unfolding shape3_iff upd_def by (simp add: nth_list_update)

lemma nth_upd:
  assumes "shape3 b" "l < 3" "r < 3" "c < 3"
  shows "upd b l r c v ! l' ! r' ! c' =
         (if l' = l \<and> r' = r \<and> c' = c then v else b ! l' ! r' ! c')"
  using assms unfolding upd_def
  by (auto simp: nth_list_update shape3_len shape3_len2 shape3_len3)

lemma valid_move_shape3:
  assumes "shape3 b"
  shows "valid_move b a =
     (if - 9 \<le> a \<and> a < 9 then Inr (b ! 2 ! row_of a ! col_of a = 1) else Inl IndexError)"
proof (cases "- 9 \<le> a \<and> a < 9")
  case True
  then have r: "- 3 \<le> a div 3" "a div 3 < 3" by presburger+
  have c: "- 3 \<le> a mod 3" "a mod 3 < 3" by presburger+
  show ?thesis
    using True getitem_shape3[OF assms _ _ r c, of 2]
    by (simp add: valid_move_def action_to_coordinate_def row_of_def col_of_def)
next
  case False
  then have r: "\<not> (- 3 \<le> a div 3 \<and> a div 3 < 3)" by presburger
  show ?thesis
    using False getitem_shape3_out[OF assms _ _ r, of 2]
    by (simp add: valid_move_def action_to_coordinate_def)
qed

lemma make_move_shape3:
  assumes "shape3 b" "p = 0 \<or> p = 1"
  shows "make_move b a p =
     (if - 9 \<le> a \<and> a < 9
      then (None, upd (upd b 2 (row_of a) (col_of a) 0) (nat p) (row_of a) (col_of a) 1)
      else (Some IndexError, b))"
proof (cases "- 9 \<le> a \<and> a < 9")
  case True
  then have r: "- 3 \<le> a div 3" "a div 3 < 3" by presburger+
  have c: "- 3 \<le> a mod 3" "a mod 3 < 3" by presburger+
  have s: "shape3 (upd b 2 (row_of a) (col_of a) 0)"
    using assms(1) by (simp add: shape3_upd row_of_lt col_of_lt)
  have p: "- 3 \<le> p" "p < 3" "nat (p mod 3) = nat p" using assms(2) by auto
  show ?thesis
    using True setitem_shape3[OF assms(1) _ _ r c, of 2 0]
      setitem_shape3[OF s p(1,2) r c, of 1] p(3)
    by (simp add: make_move_def action_to_coordinate_def row_of_def col_of_def)
next
  case False
  then have r: "\<not> (- 3 \<le> a div 3 \<and> a div 3 < 3)" by presburger
  show ?thesis
    using False setitem_shape3_out[OF assms(1) _ _ r, of 2]
    by (simp add: make_move_def action_to_coordinate_def)
qed

subsection \<open>Win detection\<close>

lemma win_lines_eight: "win_lines = eight_lines"
  by (simp add: win_lines_def eight_lines_def row_line_def column_line_def diagonal_lines_def)

lemma in_grid_eight: "list_all in_grid eight_lines"
  by (simp add: eight_lines_def row_line_def column_line_def diagonal_lines_def in_grid_def)

lemma binary_cell:
  assumes "shape3 b" "binary b" "l < 3" "r < 3" "c < 3"
  shows "b ! l ! r ! c = 0 \<or> b ! l ! r ! c = 1"
  using assms unfolding binary_def
  by (simp add: list_all_length shape3_len shape3_len2 shape3_len3)

lemma line_products_shape3:
  assumes "shape3 b"
  shows "in_grid line \<Longrightarrow>
    line_products b line (xw, ow) =
      Inr (xw * prod_list (map (\<lambda>(r, c). b ! 1 ! nat r ! nat c) line),
           ow * prod_list (map (\<lambda>(r, c). b ! 0 ! nat r ! nat c) line))"
proof (induction line arbitrary: xw ow)
  case Nil
  then show ?case by simp
next
  case (Cons pos line)
  obtain r c where pos: "pos = (r, c)" by (cases pos)
  from Cons.prems pos have rc: "0 \<le> r" "r < 3" "0 \<le> c" "c < 3" and g: "in_grid line"
    by (simp_all add: in_grid_def)
  have g0: "getitem b 0 r c = Inr (b ! 0 ! nat r ! nat c)"
    using getitem_shape3[OF assms, of 0 r c] rc by simp
  have g1: "getitem b 1 r c = Inr (b ! 1 ! nat r ! nat c)"
    using getitem_shape3[OF assms, of 1 r c] rc by simp
  show ?case
    using Cons.IH[OF g] by (simp add: pos g0 g1 mult.assoc)
qed

lemma prod_list_binary:
  "list_all (\<lambda>v. v = 0 \<or> v = (1::int)) vs \<Longrightarrow>
   prod_list vs = (if list_all (\<lambda>v. v = 1) vs then 1 else 0)"
  by (induction vs) auto

lemma line_value_binary:
  assumes "shape3 b" "binary b" "in_grid line" "player < 3"
  shows "prod_list (map (\<lambda>(r, c). b ! player ! nat r ! nat c) line) =
         (if line_won b player line then 1 else 0)"
proof -
  have "b ! player ! nat r ! nat c = 0 \<or> b ! player ! nat r ! nat c = 1"
    if "(r, c) \<in> set line" for r c
  proof -
    from that assms(3) have "nat r < 3" "nat c < 3"
      unfolding in_grid_def list_all_iff by auto
    then show ?thesis by (rule binary_cell[OF assms(1,2,4)])
  qed
  then have "list_all (\<lambda>v. v = 0 \<or> v = 1) (map (\<lambda>(r, c). b ! player ! nat r ! nat c) line)"
    unfolding list_all_iff by auto
  from prod_list_binary[OF this] show ?thesis
    unfolding line_won_def list_all_iff by (auto simp: case_prod_beta)
qed

lemma count_wins_shape3:
  assumes "shape3 b" "binary b"
  shows "list_all in_grid lines \<Longrightarrow>
    count_wins b lines (xw, ow) =
      Inr (xw + int (length (filter (line_won b 1) lines)),
           ow + int (length (filter (line_won b 0) lines)))"
proof (induction lines arbitrary: xw ow)
  case Nil
  then show ?case by simp
next
  case (Cons line lines)
  then have g: "in_grid line" and gs: "list_all in_grid lines" by simp_all
  show ?case
    using Cons.IH[OF gs]
    by (simp add: line_products_shape3[OF assms(1) g]
        line_value_binary[OF assms g])
qed

lemma filter_empty_list_ex: "filter P xs = [] \<longleftrightarrow> \<not> list_ex P xs"
  by (simp add: filter_empty_conv list_ex_iff)

lemma game_finished_binary:
  assumes "shape3 b" "binary b"
  shows "game_finished b =
     (if \<not> has_line b 1 \<and> \<not> has_line b 0 then Inr 0
      else if has_line b 1 \<and> \<not> has_line b 0 then Inr (- 1)
      else if \<not> has_line b 1 \<and> has_line b 0 then Inr 1
      else Inl Error_both_players_win)"
  unfolding game_finished_def win_lines_eight has_line_def
  by (simp add: count_wins_shape3[OF assms in_grid_eight] filter_empty_list_ex)

subsection \<open>The one-hot encoding\<close>

lemma in_cells: "(r, c) \<in> set cells \<longleftrightarrow> r < 3 \<and> c < 3"
  by (auto simp: cells_def)

lemma one_hot_iff:
  "one_hot b \<longleftrightarrow> shape3 b \<and> (\<forall>r<3. \<forall>c<3. one_hot_cell b r c)"
  unfolding one_hot_def list_all_iff by (auto simp: in_cells)

lemma filter_concat_product:
  "concat (map (\<lambda>x. map (\<lambda>y. (x, y)) (filter (P x) ys)) xs) =
   filter (\<lambda>(x, y). P x y) (List.product xs ys)"
  by (induction xs) (simp_all add: filter_map comp_def)

lemma get_possible_actions_shape3:
  assumes "shape3 b"
  shows "get_possible_actions b =
     Inr (map (\<lambda>(x, y). int x * 3 + int y) (filter (\<lambda>(r, c). b ! 2 ! r ! c = 1) cells))"
proof -
  let ?F = "\<lambda>n x. map (\<lambda>y. (x, y)) (filter (\<lambda>y. b ! 2 ! x ! y = 1) [0 ..< n x])"
  have l2: "length (b ! 2) = 3" using assms by (simp add: shape3_len2)
  have "map (?F (\<lambda>x. length (b ! 2 ! x))) [0 ..< 3] = map (?F (\<lambda>x. 3)) [0 ..< 3]"
    by (rule map_cong) (simp_all add: shape3_len3[OF assms])
  then have "concat (map (?F (\<lambda>x. length (b ! 2 ! x))) [0 ..< 3]) =
             concat (map (?F (\<lambda>x. 3)) [0 ..< 3])"
    by (rule arg_cong)
  also have "\<dots> = filter (\<lambda>(r, c). b ! 2 ! r ! c = 1) cells"
    unfolding cells_def by (rule filter_concat_product)
  finally show ?thesis
    unfolding get_possible_actions_def coordinate_to_action_def
    by (simp add: index_axis_def shape3_len[OF assms] l2)
qed

lemma possible_action_legal:
  assumes "shape3 b" "get_possible_actions b = Inr acts" "a \<in> set acts"
  shows "valid_move b a = Inr True"
proof -
  from assms obtain r c where rc: "r < 3" "c < 3" "b ! 2 ! r ! c = 1" "a = int r * 3 + int c"
    by (auto simp: get_possible_actions_shape3 in_cells)
  then have "- 9 \<le> a \<and> a < 9" "row_of a = r" "col_of a = c"
    by (auto simp: row_of_def col_of_def)
  with rc show ?thesis by (simp add: valid_move_shape3[OF assms(1)])
qed

lemma length_filter_split:
  "(\<And>x. x \<in> set xs \<Longrightarrow> P x \<noteq> Q x) \<Longrightarrow>
   length (filter P xs) + length (filter Q xs) = length xs"
  by (induction xs) auto

lemma one_hot_count:
  assumes "one_hot b"
  shows "\<exists>acts. get_possible_actions b = Inr acts \<and> length acts + marked_cells b = 9"
proof -
  have s: "shape3 b" using assms by (simp add: one_hot_iff)
  have "length (filter (\<lambda>(r, c). b ! 2 ! r ! c = 1) cells) +
        length (filter (\<lambda>(r, c). b ! 0 ! r ! c = 1 \<or> b ! 1 ! r ! c = 1) cells) = length cells"
  proof (rule length_filter_split)
    fix x assume "x \<in> set cells"
    moreover obtain r c where "x = (r, c)" by (cases x)
    ultimately have x: "x = (r, c)" "r < 3" "c < 3" by (simp_all add: in_cells)
    with assms have "one_hot_cell b r c" by (simp add: one_hot_iff)
    with x show "(case x of (r, c) \<Rightarrow> b ! 2 ! r ! c = 1) \<noteq>
        (case x of (r, c) \<Rightarrow> b ! 0 ! r ! c = 1 \<or> b ! 1 ! r ! c = 1)"
      by (auto simp: one_hot_cell_def)
  qed
  then show ?thesis
    by (simp add: get_possible_actions_shape3[OF s] marked_cells_def cells_def)
qed

lemma one_hot_make_move:
  assumes "one_hot b" "valid_move b a = Inr True" "p = 0 \<or> p = 1"
  shows "\<exists>b'. make_move b a p = (None, b') \<and> one_hot b'"
proof -
  have s: "shape3 b" using assms(1) by (simp add: one_hot_iff)
  from assms(2) have ra: "- 9 \<le> a \<and> a < 9" and e: "b ! 2 ! row_of a ! col_of a = 1"
    by (simp_all add: valid_move_shape3[OF s] split: if_splits)
  let ?b1 = "upd b 2 (row_of a) (col_of a) 0"
  let ?b2 = "upd ?b1 (nat p) (row_of a) (col_of a) 1"
  have s1: "shape3 ?b1" using s by (simp add: shape3_upd row_of_lt col_of_lt)
  have p3: "nat p < 3" using assms(3) by auto
  have s2: "shape3 ?b2" using s1 p3 by (simp add: shape3_upd row_of_lt col_of_lt)
  have mm: "make_move b a p = (None, ?b2)"
    using ra by (simp add: make_move_shape3[OF s assms(3)])
  have v1: "?b1 ! l ! r ! c =
      (if l = 2 \<and> r = row_of a \<and> c = col_of a then 0 else b ! l ! r ! c)" for l r c
    by (rule nth_upd[OF s _ row_of_lt col_of_lt]) simp
  have v2: "?b2 ! l ! r ! c =
      (if l = nat p \<and> r = row_of a \<and> c = col_of a then 1 else ?b1 ! l ! r ! c)" for l r c
    by (rule nth_upd[OF s1 p3 row_of_lt col_of_lt])
  have "one_hot_cell ?b2 r c" if "r < 3" "c < 3" for r c
  proof -
    from assms(1) that have oc: "one_hot_cell b r c" by (simp add: one_hot_iff)
    show ?thesis
    proof (cases "r = row_of a \<and> c = col_of a")
      case True
      with e oc have "b ! 0 ! r ! c = 0" "b ! 1 ! r ! c = 0"
        unfolding one_hot_cell_def by auto
      with True assms(3) show ?thesis
        unfolding one_hot_cell_def v2 v1 by auto
    next
      case False
      with oc show ?thesis
        unfolding one_hot_cell_def v2 v1 by auto
    qed
  qed
  with s2 mm show ?thesis by (simp add: one_hot_iff)
qed

lemma one_hot_empty_board: "one_hot empty_board"
  by (simp add: one_hot_def shape3_def empty_board_def cells_def one_hot_cell_def
      numeral_3_eq_3 numeral_2_eq_2)

subsection \<open>Sessions\<close>

lemma random_policy_member:
  "random_policy randint g b = (Inr (Some a), g') \<Longrightarrow>
   \<exists>acts. get_possible_actions b = Inr acts \<and> a \<in> set acts"
  unfolding random_policy_def
  by (auto split: sum.splits if_splits prod.splits)

lemma call_opponent_policy_cases:
  obtains
    (unbound) "opponent_policy self = None"
      "call_opponent_policy randint self = (Inl AttributeError, self)"
  | (random) g r g' where "opponent_policy self = Some (Bound_random g)"
      "random_policy randint g (state self) = (r, g')"
      "call_opponent_policy randint self = (r, self\<lparr>opponent_policy := Some (Bound_random g')\<rparr>)"
  | (callable) f where "opponent_policy self = Some (Bound_callable f)"
      "call_opponent_policy randint self = (Inr (f (state self)), self)"
proof (cases "opponent_policy self")
  case None
  then show ?thesis using unbound by (simp add: call_opponent_policy_def)
next
  case (Some p)
  show ?thesis
  proof (cases p)
    case (Bound_random g)
    obtain r g' where "random_policy randint g (state self) = (r, g')"
      by (cases "random_policy randint g (state self)")
    with Some Bound_random show ?thesis
      using random by (simp add: call_opponent_policy_def)
  next
    case (Bound_callable f)
    with Some show ?thesis using callable by (simp add: call_opponent_policy_def)
  qed
qed

lemma call_opponent_policy_frame:
  assumes "call_opponent_policy randint self = (r, self1)"
  shows "\<exists>p. self1 = self\<lparr>opponent_policy := p\<rparr> \<and>
     (case opponent_policy self of
        None \<Rightarrow> p = None
      | Some (Bound_random g) \<Rightarrow> (\<exists>g'. p = Some (Bound_random g'))
      | Some (Bound_callable f) \<Rightarrow> p = Some (Bound_callable f))"
  using assms by (cases self rule: call_opponent_policy_cases[where randint = randint]) auto

lemma call_opponent_policy_wf:
  assumes "call_opponent_policy randint self = (r, self1)" "well_formed self"
  shows "well_formed self1 \<and> state self1 = state self \<and> player_color self1 = player_color self"
proof -
  from call_opponent_policy_frame[OF assms(1)] obtain p where
    p: "self1 = self\<lparr>opponent_policy := p\<rparr>"
    and k: "case opponent_policy self of
        None \<Rightarrow> p = None
      | Some (Bound_random g) \<Rightarrow> (\<exists>g'. p = Some (Bound_random g'))
      | Some (Bound_callable f) \<Rightarrow> p = Some (Bound_callable f)"
    by blast
  from k assms(2) have "policy_ok self1"
    unfolding p well_formed_def policy_ok_def
    by (auto split: option.splits bound_policy.splits)
  with assms(2) show ?thesis
    unfolding p well_formed_def color_ok_def by simp
qed

lemma call_opponent_policy_legal:
  assumes "call_opponent_policy randint self = (Inr (Some a), self1)" "well_formed self"
  shows "valid_move (state self) a = Inr True"
proof (cases self rule: call_opponent_policy_cases[where randint = randint])
  case unbound
  with assms show ?thesis by simp
next
  case (random g r g')
  with assms obtain acts where
    "get_possible_actions (state self) = Inr acts" "a \<in> set acts"
    by (auto dest: random_policy_member)
  moreover have "shape3 (state self)" using assms(2) by (simp add: well_formed_def one_hot_iff)
  ultimately show ?thesis by (simp add: possible_action_legal)
next
  case (callable f)
  with assms show ?thesis
    unfolding well_formed_def policy_ok_def legal_policy_def by auto
qed

lemma step_reward_frame:
  "\<exists>d. snd (step_reward self) = self\<lparr>done := d\<rparr>"
  unfolding step_reward_def
  by (cases "game_finished (state self)") (auto simp: Let_def intro: exI[of _ "done self"])

lemma well_formed_done: "well_formed (self\<lparr>done := d\<rparr>) = well_formed self"
  by (simp add: well_formed_def color_ok_def policy_ok_def)

lemma step_reward_wf: "well_formed self \<Longrightarrow> well_formed (snd (step_reward self))"
  using step_reward_frame[of self] by (auto simp: well_formed_done)

lemma well_formed_state:
  "well_formed self \<Longrightarrow> one_hot b \<Longrightarrow> well_formed (self\<lparr>state := b\<rparr>)"
  by (simp add: well_formed_def color_ok_def policy_ok_def)

lemma env_step_wf:
  assumes wf: "well_formed self"
  shows "well_formed (snd (env_step randint self action))"
proof (cases "to_play self \<noteq> player_color self \<or> done self")
  case True
  with wf show ?thesis by (auto simp: env_step_def)
next
  case go: False
  show ?thesis
  proof (cases "valid_move (state self) action")
    case (Inl e)
    with go wf show ?thesis by (simp add: env_step_def)
  next
    case (Inr legal)
    show ?thesis
    proof (cases legal)
      case False
      with go Inr wf show ?thesis by (simp add: env_step_def Let_def well_formed_done)
    next
      case True
      from wf have oh: "one_hot (state self)" and col: "color_ok self"
        by (simp_all add: well_formed_def)
      have vm: "valid_move (state self) action = Inr True" using Inr True by simp
      have pc: "player_color self = 0 \<or> player_color self = 1"
        using col by (simp add: color_ok_def)
      from one_hot_make_move[OF oh vm pc] obtain b where
        mm: "make_move (state self) action (player_color self) = (None, b)" and ohb: "one_hot b"
        by blast
      let ?s0 = "self\<lparr>state := b\<rparr>"
      have wf0: "well_formed ?s0" using wf ohb by (rule well_formed_state)
      obtain r self1 where call: "call_opponent_policy randint ?s0 = (r, self1)"
        by (cases "call_opponent_policy randint ?s0")
      from call_opponent_policy_wf[OF call wf0] have wf1: "well_formed self1"
        and st1: "state self1 = b" and pc1: "player_color self1 = player_color self" by simp_all
      have step: "env_step randint self action =
        (case r of
           Inl e \<Rightarrow> (Inl e, self1)
         | Inr None \<Rightarrow> step_reward self1
         | Inr (Some a) \<Rightarrow>
             (case game_finished (state self1) of
                Inl e \<Rightarrow> (Inl e, self1)
              | Inr v \<Rightarrow>
                  if v = 0 then
                    (case make_move (state self1) a (1 - player_color self1) of
                       (Some e, b') \<Rightarrow> (Inl e, self1\<lparr>state := b'\<rparr>)
                     | (None, b') \<Rightarrow> step_reward (self1\<lparr>state := b'\<rparr>))
                  else step_reward self1))"
        using go Inr True by (simp add: env_step_def mm call)
      show ?thesis
      proof (cases r)
        case (Inl e)
        with step wf1 show ?thesis by simp
      next
        case rr: (Inr m)
        show ?thesis
        proof (cases m)
          case None
          with step rr wf1 show ?thesis by (simp add: step_reward_wf)
        next
          case (Some a)
          from call_opponent_policy_legal[OF call[unfolded rr Some] wf0]
          have legal: "valid_move (state self1) a = Inr True" by (simp add: st1)
          have "color_ok self1" using wf1 by (simp add: well_formed_def)
          then have "1 - player_color self1 = 0 \<or> 1 - player_color self1 = 1"
            unfolding color_ok_def by auto
          moreover have "one_hot (state self1)" using wf1 by (simp add: well_formed_def)
          ultimately obtain b' where
            mm': "make_move (state self1) a (1 - player_color self1) = (None, b')"
            and ohb': "one_hot b'"
            using one_hot_make_move[OF _ legal] by blast
          have "well_formed (self1\<lparr>state := b'\<rparr>)" using wf1 ohb' by (rule well_formed_state)
          with step rr Some wf1 mm' show ?thesis
            by (cases "game_finished (state self1)") (simp_all add: step_reward_wf)
        qed
      qed
    qed
  qed
qed

lemma well_formed_to_play: "well_formed (self\<lparr>to_play := t\<rparr>) = well_formed self"
  by (simp add: well_formed_def color_ok_def policy_ok_def)

lemma env_reset_wf:
  assumes "color_ok self" "policy_ok self"
  shows "well_formed (snd (env_reset randint self))"
proof -
  let ?s = "self\<lparr>state := empty_board, to_play := CIRCLE, done := False\<rparr>"
  have wf: "well_formed ?s"
    using assms by (simp add: well_formed_def color_ok_def policy_ok_def one_hot_empty_board)
  show ?thesis
  proof (cases "player_color self = CIRCLE")
    case True
    with wf show ?thesis by (simp add: env_reset_def Let_def)
  next
    case False
    obtain r self1 where call: "call_opponent_policy randint ?s = (r, self1)"
      by (cases "call_opponent_policy randint ?s")
    from call_opponent_policy_wf[OF call wf] have wf1: "well_formed self1"
      and st1: "state self1 = empty_board" by simp_all
    have reset: "env_reset randint self =
       (case r of
          Inl e \<Rightarrow> (Inl e, self1)
        | Inr None \<Rightarrow> (Inl TypeError, self1)
        | Inr (Some a) \<Rightarrow>
            (case make_move (state self1) a CIRCLE of
               (Some e, b) \<Rightarrow> (Inl e, self1\<lparr>state := b\<rparr>)
             | (None, b) \<Rightarrow>
                 (Inr b, self1\<lparr>state := b, to_play := CROSS\<rparr>)))"
      using False
      by (simp add: env_reset_def Let_def call split: sum.splits option.splits prod.splits)
    show ?thesis
    proof (cases r)
      case (Inl e)
      with reset wf1 show ?thesis by simp
    next
      case rr: (Inr m)
      show ?thesis
      proof (cases m)
        case None
        with reset rr wf1 show ?thesis by simp
      next
        case (Some a)
        from call_opponent_policy_legal[OF call[unfolded rr Some] wf]
        have legal: "valid_move (state self1) a = Inr True" by (simp add: st1)
        have "one_hot (state self1)" using wf1 by (simp add: well_formed_def)
        from one_hot_make_move[OF this legal, of CIRCLE] obtain b where
          mm: "make_move (state self1) a CIRCLE = (None, b)" and ohb: "one_hot b"
          by auto
        have "well_formed (self1\<lparr>state := b\<rparr>)" using wf1 ohb by (rule well_formed_state)
        then have "well_formed (self1\<lparr>state := b, to_play := CROSS\<rparr>)"
          by (simp add: well_formed_to_play)
        with reset rr Some mm show ?thesis by simp
      qed
    qed
  qed
qed

lemma snd_run_steps_Cons:
  "snd (run_steps randint self (a # as)) =
   snd (run_steps randint (snd (env_step randint self a)) as)"
  by (simp split: prod.splits)

lemma run_steps_wf:
  "well_formed self \<Longrightarrow> well_formed (snd (run_steps randint self as))"
proof (induction as arbitrary: self)
  case Nil
  then show ?case by simp
next
  case (Cons a as)
  from Cons.prems have "well_formed (snd (env_step randint self a))" by (rule env_step_wf)
  from Cons.IH[OF this] show ?case by (simp only: snd_run_steps_Cons)
qed

lemma reached_wf:
  assumes "color_ok self" "policy_ok self"
  shows "well_formed (reached randint self as)"
  unfolding reached_def using env_reset_wf[OF assms] by (rule run_steps_wf)

lemma binary_iff:
  assumes "shape3 b"
  shows "binary b \<longleftrightarrow> (\<forall>l<3. \<forall>r<3. \<forall>c<3. b ! l ! r ! c = 0 \<or> b ! l ! r ! c = 1)"
  unfolding binary_def list_all_length
  using assms by (auto simp: shape3_iff)

lemma line_won_mono:
  assumes "in_grid line" "line_won b l line"
    and "\<And>r c. r < 3 \<Longrightarrow> c < 3 \<Longrightarrow> b ! l ! r ! c = 1 \<Longrightarrow> b' ! l ! r ! c = 1"
  shows "line_won b' l line"
  unfolding line_won_def list_all_iff
proof
  fix x assume x: "x \<in> set line"
  obtain r c where rc: "x = (r, c)" by (cases x)
  from assms(1) x rc have "nat r < 3" "nat c < 3"
    unfolding in_grid_def list_all_iff by auto
  moreover from assms(2) x rc have "b ! l ! nat r ! nat c = 1"
    unfolding line_won_def list_all_iff by auto
  ultimately have "b' ! l ! nat r ! nat c = 1" by (rule assms(3))
  then show "case x of (r, c) \<Rightarrow> b' ! l ! nat r ! nat c = 1" by (simp add: rc)
qed

lemma has_line_mono:
  assumes "has_line b l"
    and "\<And>r c. r < 3 \<Longrightarrow> c < 3 \<Longrightarrow> b ! l ! r ! c = 1 \<Longrightarrow> b' ! l ! r ! c = 1"
  shows "has_line b' l"
proof -
  from assms(1) obtain line where l: "line \<in> set eight_lines" "line_won b l line"
    unfolding has_line_def list_ex_iff by blast
  from l(1) in_grid_eight have "in_grid line" by (simp add: list_all_iff)
  from line_won_mono[OF this l(2) assms(2)] have "line_won b' l line" by blast
  with l(1) show ?thesis unfolding has_line_def list_ex_iff by blast
qed

lemma make_move_keeps_marks:
  assumes s: "shape3 b" and bi: "binary b" and vm: "valid_move b a = Inr True"
    and p: "p = 0 \<or> p = 1"
  shows "\<exists>b'. make_move b a p = (None, b') \<and> shape3 b' \<and> binary b' \<and>
     (\<forall>l<2. \<forall>r<3. \<forall>c<3. b ! l ! r ! c = 1 \<longrightarrow> b' ! l ! r ! c = 1)"
proof -
  from vm have ra: "- 9 \<le> a \<and> a < 9"
    by (simp add: valid_move_shape3[OF s] split: if_splits)
  let ?b1 = "upd b 2 (row_of a) (col_of a) 0"
  let ?b2 = "upd ?b1 (nat p) (row_of a) (col_of a) 1"
  have s1: "shape3 ?b1" using s by (simp add: shape3_upd row_of_lt col_of_lt)
  have p3: "nat p < 3" using p by auto
  have s2: "shape3 ?b2" using s1 p3 by (simp add: shape3_upd row_of_lt col_of_lt)
  have mm: "make_move b a p = (None, ?b2)"
    using ra by (simp add: make_move_shape3[OF s p])
  have v1: "?b1 ! l ! r ! c =
      (if l = 2 \<and> r = row_of a \<and> c = col_of a then 0 else b ! l ! r ! c)" for l r c
    by (rule nth_upd[OF s _ row_of_lt col_of_lt]) simp
  have v2: "?b2 ! l ! r ! c =
      (if l = nat p \<and> r = row_of a \<and> c = col_of a then 1 else ?b1 ! l ! r ! c)" for l r c
    by (rule nth_upd[OF s1 p3 row_of_lt col_of_lt])
  have "binary ?b2"
    using bi unfolding binary_iff[OF s] binary_iff[OF s2] v2 v1 by simp
  moreover have "\<forall>l<2. \<forall>r<3. \<forall>c<3. b ! l ! r ! c = 1 \<longrightarrow> ?b2 ! l ! r ! c = 1"
    unfolding v2 v1 by simp
  ultimately show ?thesis using mm s2 by blast
qed

lemma env_step_legal:
  assumes "to_play self = player_color self" "\<not> done self"
    "valid_move (state self) action = Inr True"
    "make_move (state self) action (player_color self) = (None, b)"
    "call_opponent_policy randint (self\<lparr>state := b\<rparr>) = (r, self1)"
  shows "env_step randint self action =
        (case r of
           Inl e \<Rightarrow> (Inl e, self1)
         | Inr None \<Rightarrow> step_reward self1
         | Inr (Some a) \<Rightarrow>
             (case game_finished (state self1) of
                Inl e \<Rightarrow> (Inl e, self1)
              | Inr v \<Rightarrow>
                  if v = 0 then
                    (case make_move (state self1) a (1 - player_color self1) of
                       (Some e, b') \<Rightarrow> (Inl e, self1\<lparr>state := b'\<rparr>)
                     | (None, b') \<Rightarrow> step_reward (self1\<lparr>state := b'\<rparr>))
                  else step_reward self1))"
  using assms by (simp add: env_step_def)

subsection \<open>What a step leaves unchanged\<close>

lemma valid_move_not_empty:
  "shape3 b \<Longrightarrow> target_not_empty b a \<Longrightarrow> valid_move b a = Inr False"
  by (simp add: valid_move_shape3 target_not_empty_def)

lemma target_not_empty_one_hot:
  assumes "one_hot b" "- 9 \<le> a" "a < 9"
  shows "target_not_empty b a \<longleftrightarrow>
     b ! 0 ! row_of a ! col_of a = 1 \<or> b ! 1 ! row_of a ! col_of a = 1"
proof -
  from assms(1) have "one_hot_cell b (row_of a) (col_of a)"
    by (simp add: one_hot_iff row_of_lt col_of_lt)
  with assms(2,3) show ?thesis
    unfolding target_not_empty_def one_hot_cell_def by auto
qed

lemma call_opponent_policy_fields:
  assumes "call_opponent_policy randint self = (r, self1)"
  shows "state self1 = state self \<and> to_play self1 = to_play self \<and>
         player_color self1 = player_color self \<and> done self1 = done self \<and>
         illegal_move_mode self1 = illegal_move_mode self \<and> opponent self1 = opponent self \<and>
         observation_type self1 = observation_type self"
  using call_opponent_policy_frame[OF assms] by auto

lemma step_reward_fields:
  "state (snd (step_reward self)) = state self \<and>
   to_play (snd (step_reward self)) = to_play self \<and>
   player_color (snd (step_reward self)) = player_color self \<and>
   illegal_move_mode (snd (step_reward self)) = illegal_move_mode self \<and>
   opponent (snd (step_reward self)) = opponent self \<and>
   opponent_policy (snd (step_reward self)) = opponent_policy self \<and>
   observation_type (snd (step_reward self)) = observation_type self"
  using step_reward_frame[of self] by auto

lemma env_step_fields:
  "to_play (snd (env_step randint self action)) = to_play self \<and>
   player_color (snd (env_step randint self action)) = player_color self \<and>
   illegal_move_mode (snd (env_step randint self action)) = illegal_move_mode self \<and>
   opponent (snd (env_step randint self action)) = opponent self \<and>
   observation_type (snd (env_step randint self action)) = observation_type self"
  unfolding env_step_def
  by (auto simp: Let_def step_reward_fields
      split: sum.splits bool.splits option.splits prod.splits
      dest!: call_opponent_policy_fields)

lemma env_step_done_turn:
  "done (snd (env_step randint self action)) \<Longrightarrow> \<not> done self \<Longrightarrow>
   to_play self = player_color self"
  unfolding env_step_def by (auto split: if_splits)

lemma env_step_turn_ok: "turn_ok self \<Longrightarrow> turn_ok (snd (env_step randint self action))"
  unfolding turn_ok_def using env_step_done_turn[of randint self action]
  by (auto simp: env_step_fields)

lemma env_reset_not_done: "\<not> done (snd (env_reset randint self))"
  unfolding env_reset_def
  by (auto simp: Let_def split: sum.splits option.splits prod.splits
      dest!: call_opponent_policy_fields)

lemma run_steps_turn_ok: "turn_ok self \<Longrightarrow> turn_ok (snd (run_steps randint self as))"
proof (induction as arbitrary: self)
  case Nil
  then show ?case by simp
next
  case (Cons a as)
  from Cons.prems have "turn_ok (snd (env_step randint self a))" by (rule env_step_turn_ok)
  from Cons.IH[OF this] show ?case by (simp only: snd_run_steps_Cons)
qed

lemma reached_turn_ok: "turn_ok (reached randint self as)"
  unfolding reached_def
  by (rule run_steps_turn_ok) (simp add: turn_ok_def env_reset_not_done)

lemma env_step_done:
  "done self \<Longrightarrow> to_play self = player_color self \<Longrightarrow>
   env_step randint self action = (Inr (state self, 0, True, state self), self)"
  by (simp add: env_step_def)

lemma run_steps_done:
  "done self \<Longrightarrow> to_play self = player_color self \<Longrightarrow>
   run_steps randint self as =
     (replicate (length as) (Inr (state self, 0, True, state self)), self)"
  by (induction as) (simp_all add: env_step_done)

subsection \<open>The constructor\<close>

lemma colormap_cross: "colormap ''cross'' = Some CROSS"
  by (simp add: colormap_def)

lemma colormap_Some: "colormap name = Some color \<Longrightarrow> color = CIRCLE \<or> color = CROSS"
  by (auto simp: colormap_def split: if_splits)

lemma env_reset_unbound_cross:
  "player_color self = CROSS \<Longrightarrow> opponent_policy self = None \<Longrightarrow>
   fst (env_reset randint self) = Inl AttributeError"
  by (simp add: env_reset_def Let_def call_opponent_policy_def)

lemma env_reset_circle:
  "player_color self = CIRCLE \<Longrightarrow>
   env_reset randint self =
     (Inr empty_board, self\<lparr>state := empty_board, to_play := CIRCLE, done := False\<rparr>)"
  by (simp add: env_reset_def Let_def)

lemma env_init_Inr:
  assumes "env_init randint np_random name opp obs mode = Inr self"
  shows "name = ''circle'' \<and> obs = ''numpy3c'' \<and> (mode = ''lose'' \<or> mode = ''raise'') \<and>
     (\<exists>p. self = \<lparr>player_color = CIRCLE, opponent = opp, observation_type = obs,
                  illegal_move_mode = mode, opponent_policy = Some p, state = empty_board,
                  to_play = CIRCLE, done = False\<rparr>)"
proof -
  from assms obtain color where c: "colormap name = Some color"
    by (auto simp: env_init_def split: option.splits)
  from assms c have obs: "obs = ''numpy3c''" and mode: "mode = ''lose'' \<or> mode = ''raise''"
    by (auto simp: env_init_def split: if_splits)
  let ?s0 = "\<lparr>player_color = color, opponent = opp, observation_type = obs,
              illegal_move_mode = mode, opponent_policy = None, state = [],
              to_play = CIRCLE, done = False\<rparr> :: 'a env"
  have init: "env_init randint np_random name opp obs mode =
     (case env_reset randint ?s0 of
        (Inl e, self) \<Rightarrow> Inl e
      | (Inr observation, self) \<Rightarrow>
          (case env_seed np_random self None of
             (Inl e, self1) \<Rightarrow> Inl e
           | (Inr seeds, self1) \<Rightarrow> Inr self1))"
    using c obs mode by (auto simp: env_init_def)
  have color: "color = CIRCLE"
  proof (rule ccontr)
    assume "color \<noteq> CIRCLE"
    with colormap_Some[OF c] have "color = CROSS" by simp
    then have "fst (env_reset randint ?s0) = Inl AttributeError"
      by (simp add: env_reset_unbound_cross)
    with assms show False unfolding init by (auto split: prod.splits sum.splits)
  qed
  then have name: "name = ''circle''"
    using c by (auto simp: colormap_def split: if_splits)
  from assms show ?thesis
    unfolding init
    by (auto simp: color name obs mode env_reset_circle env_seed_def
        split: sum.splits prod.splits opponent.splits if_splits)
qed

subsection \<open>Seeding\<close>

lemma env_seed_random:
  assumes "opponent self = Opponent_str ''random''" "np_random seed = Inr (g, k)"
  shows "env_seed np_random self seed =
           (Inr [k], self\<lparr>opponent_policy := Some (Bound_random g)\<rparr>)"
  using assms by (simp add: env_seed_def)

subsection \<open>Reset\<close>

lemma possible_actions_empty_board:
  "get_possible_actions empty_board = Inr [0, 1, 2, 3, 4, 5, 6, 7, 8]"
  by code_simp

lemma opening_moves:
  "list_all (\<lambda>a. case make_move empty_board a CIRCLE of
       (None, b) \<Rightarrow> one_hot b \<and> marked_cells b = 1 \<and> marks_of 0 b = 1 \<and> marks_of 1 b = 0
     | (Some e, b) \<Rightarrow> False) [- 9 .. 8]"
  by code_simp

lemma opening_move:
  assumes "- 9 \<le> a" "a < 9"
  shows "\<exists>b. make_move empty_board a CIRCLE = (None, b) \<and> one_hot b \<and>
     marked_cells b = 1 \<and> marks_of 0 b = 1 \<and> marks_of 1 b = 0"
proof -
  from assms have "a \<in> {- 9 .. 8}" by simp
  then have "a \<in> set [- 9 .. 8]" by (simp only: set_upto)
  with opening_moves show ?thesis
    unfolding list_all_iff by (fastforce split: prod.splits option.splits)
qed

lemma opening_call:
  assumes "opening_ok randint self" "state self = empty_board"
  shows "\<exists>a self1. call_opponent_policy randint self = (Inr (Some a), self1) \<and>
     - 9 \<le> a \<and> a < 9"
proof (cases self rule: call_opponent_policy_cases[where randint = randint])
  case unbound
  with assms show ?thesis by (simp add: opening_ok_def)
next
  case (random g r g')
  let ?pm = "[0, 1, 2, 3, 4, 5, 6, 7, 8 :: int]"
  have len: "length ?pm = 9" by simp
  obtain n h where d: "randint g 9 = (n, h)" by (cases "randint g 9")
  with assms(1) random(1) have n: "n < 9" by (simp add: opening_ok_def)
  have rp: "random_policy randint g empty_board = (Inr (Some (?pm ! n)), h)"
    unfolding random_policy_def possible_actions_empty_board sum.case len
    by (simp add: d n)
  have "?pm ! n \<in> set ?pm" using n len by (simp only: nth_mem)
  then have "- 9 \<le> ?pm ! n \<and> ?pm ! n < 9" by auto
  with random rp assms(2) show ?thesis by auto
next
  case (callable f)
  with assms show ?thesis by (auto simp: opening_ok_def split: option.splits)
qed

lemma marked_cells_empty_board: "marked_cells empty_board = 0"
  by code_simp

lemma shape3_empty_board: "shape3 empty_board"
  by code_simp

lemma env_reset_returns:
  assumes "color_ok self" "env_reset randint self = (Inr b, self')"
  shows "state self' = b \<and> \<not> done self' \<and> player_color self' = player_color self \<and>
     to_play self' = player_color self \<and> one_hot b \<and>
     (player_color self = CIRCLE \<longrightarrow> b = empty_board \<and> marked_cells b = 0) \<and>
     (player_color self = CROSS \<longrightarrow>
        marked_cells b = 1 \<and> marks_of 0 b = 1 \<and> marks_of 1 b = 0)"
proof (cases "player_color self = CIRCLE")
  case True
  with assms(2) show ?thesis
    by (auto simp: env_reset_circle marked_cells_empty_board one_hot_empty_board)
next
  case False
  with assms(1) have x: "player_color self = CROSS" by (simp add: color_ok_def)
  let ?s = "self\<lparr>state := empty_board, to_play := CIRCLE, done := False\<rparr>"
  obtain r self1 where call: "call_opponent_policy randint ?s = (r, self1)"
    by (cases "call_opponent_policy randint ?s")
  note f = call_opponent_policy_fields[OF call]
  have reset: "env_reset randint self =
       (case r of
          Inl e \<Rightarrow> (Inl e, self1)
        | Inr None \<Rightarrow> (Inl TypeError, self1)
        | Inr (Some a) \<Rightarrow>
            (case make_move empty_board a CIRCLE of
               (Some e, b) \<Rightarrow> (Inl e, self1\<lparr>state := b\<rparr>)
             | (None, b) \<Rightarrow>
                 (Inr b, self1\<lparr>state := b, to_play := CROSS\<rparr>)))"
    using x f
    by (simp add: env_reset_def Let_def call split: sum.splits option.splits prod.splits)
  from assms(2) obtain a where
    mm: "make_move empty_board a CIRCLE = (None, b)"
    and s': "self' = self1\<lparr>state := b, to_play := CROSS\<rparr>"
    unfolding reset by (auto split: sum.splits option.splits prod.splits)
  from mm have "- 9 \<le> a \<and> a < 9"
    by (simp add: make_move_shape3[OF shape3_empty_board] split: if_splits)
  with opening_move[of a] mm
  have "one_hot b \<and> marked_cells b = 1 \<and> marks_of 0 b = 1 \<and> marks_of 1 b = 0" by auto
  with x s' f show ?thesis by simp
qed

lemma env_reset_total:
  assumes "color_ok self" "player_color self = CROSS \<longrightarrow> opening_ok randint self"
  shows "\<exists>b self'. env_reset randint self = (Inr b, self')"
proof (cases "player_color self = CIRCLE")
  case True
  then show ?thesis by (simp add: env_reset_circle)
next
  case False
  with assms(1) have x: "player_color self = CROSS" by (simp add: color_ok_def)
  let ?s = "self\<lparr>state := empty_board, to_play := CIRCLE, done := False\<rparr>"
  from assms(2) x have "opening_ok randint ?s" by (simp add: opening_ok_def)
  from opening_call[OF this] obtain a self1 where
    call: "call_opponent_policy randint ?s = (Inr (Some a), self1)" and a: "- 9 \<le> a" "a < 9"
    by auto
  from opening_move[OF a] obtain b where mm: "make_move empty_board a CIRCLE = (None, b)"
    by blast
  from call_opponent_policy_fields[OF call] have "state self1 = empty_board" by simp
  with x call mm show ?thesis
    by (simp add: env_reset_def Let_def)
qed

text \<open>
  \<open>_reset\<close> on a session whose opponent policy is already bound. Take a session whose
  side is Circle or Cross and, when the side is Cross, whose opponent can open the game.
  Then \<open>reset\<close> returns a board, and whenever \<open>reset\<close> returns a board (also without
  the assumption on the opponent) that board is the session's state and is one-hot, the
  session is not done and it is the agent's turn; for a Circle agent the board is the
  empty board, with no marked cell; for a Cross agent the turn is Cross and the board
  holds exactly one mark, a Circle mark.
\<close>

lemma env_reset_bound_policy:
  assumes "color_ok self" "player_color self = CROSS \<longrightarrow> opening_ok randint self"
  shows "(\<exists>b self'. env_reset randint self = (Inr b, self')) \<and>
     (\<forall>b self'. env_reset randint self = (Inr b, self') \<longrightarrow>
        state self' = b \<and> \<not> done self' \<and> player_color self' = player_color self \<and>
        to_play self' = player_color self \<and> one_hot b \<and>
        (player_color self = CIRCLE \<longrightarrow> b = empty_board \<and> marked_cells b = 0) \<and>
        (player_color self = CROSS \<longrightarrow>
           marked_cells b = 1 \<and> marks_of 0 b = 1 \<and> marks_of 1 b = 0))"
  using env_reset_total[OF assms] env_reset_returns[OF assms(1)] by blast

lemma env_reset_bound_policy_example:
  "color_ok cross_vs_random \<and> player_color cross_vs_random = CROSS \<and>
   opening_ok first_free cross_vs_random \<and>
   fst (env_reset first_free cross_vs_random) =
     Inr [[[1, 0, 0], [0, 0, 0], [0, 0, 0]],
          [[0, 0, 0], [0, 0, 0], [0, 0, 0]],
          [[0, 1, 1], [1, 1, 1], [1, 1, 1]]] \<and>
   to_play (snd (env_reset first_free cross_vs_random)) = CROSS \<and>
   marked_cells (state (snd (env_reset first_free cross_vs_random))) = 1 \<and>
   fst (env_reset first_free circle_vs_random) = Inr empty_board \<and>
   to_play (snd (env_reset first_free circle_vs_random)) = CIRCLE"
proof -
  have c: "color_ok cross_vs_random" by code_simp
  have x: "player_color cross_vs_random = CROSS" by code_simp
  have o: "opening_ok first_free cross_vs_random" by code_simp
  have b: "fst (env_reset first_free cross_vs_random) =
     Inr [[[1, 0, 0], [0, 0, 0], [0, 0, 0]],
          [[0, 0, 0], [0, 0, 0], [0, 0, 0]],
          [[0, 1, 1], [1, 1, 1], [1, 1, 1]]]" by code_simp
  have e: "fst (env_reset first_free circle_vs_random) = Inr empty_board" by code_simp
  have t: "to_play (snd (env_reset first_free circle_vs_random)) = CIRCLE" by code_simp
  obtain r s where rs: "env_reset first_free cross_vs_random = (r, s)"
    by (cases "env_reset first_free cross_vs_random")
  with b have r: "env_reset first_free cross_vs_random =
     (Inr [[[1, 0, 0], [0, 0, 0], [0, 0, 0]],
           [[0, 0, 0], [0, 0, 0], [0, 0, 0]],
           [[0, 1, 1], [1, 1, 1], [1, 1, 1]]], s)" by simp
  from env_reset_bound_policy[of cross_vs_random first_free] c x o r
  have "to_play s = CROSS \<and> marked_cells (state s) = 1" by auto
  with c x o b e t rs show ?thesis by simp
qed

lemma env_reset_cross_unbound:
  "player_color self = CROSS \<Longrightarrow> opponent_policy self = None \<Longrightarrow>
   env_reset randint self =
     (Inl AttributeError, self\<lparr>state := empty_board, to_play := CIRCLE, done := False\<rparr>)"
  by (simp add: env_reset_def Let_def call_opponent_policy_def)

lemma env_reset_player_color:
  "player_color (snd (env_reset randint self)) = player_color self"
  unfolding env_reset_def
  by (auto simp: Let_def split: sum.splits option.splits prod.splits
      dest!: call_opponent_policy_fields)

lemma run_steps_player_color:
  "player_color (snd (run_steps randint self as)) = player_color self"
proof (induction as arbitrary: self)
  case Nil
  then show ?case by simp
next
  case (Cons a as)
  show ?case
    by (simp only: snd_run_steps_Cons Cons.IH env_step_fields)
qed

lemma reached_player_color:
  "player_color (reached randint self as) = player_color self"
  by (simp add: reached_def run_steps_player_color env_reset_player_color)

section \<open>The claims\<close>

text \<open>
  Claim C1, what the code does. In a session with illegal-move mode "raise" that is not
  done and in which it is the agent's turn, a \<open>step\<close> whose action addresses a cell that is
  not empty executes the bare \<open>raise\<close> statement: the fault is Python's RuntimeError for a
  re-raise with no exception being handled, and the session is left as it was.
\<close>

theorem illegal_move_raise_mode:
  assumes "illegal_move_mode self = ''raise''" "\<not> done self" "to_play self = player_color self"
    "shape3 (state self)" "target_not_empty (state self) action"
  shows "env_step randint self action = (Inl RuntimeError, self)"
  using assms by (simp add: env_step_def valid_move_not_empty)

theorem illegal_move_raise_mode_witness:
  "illegal_move_mode (reached first_free circle_vs_random_raise [4]) = ''raise'' \<and>
   \<not> done (reached first_free circle_vs_random_raise [4]) \<and>
   to_play (reached first_free circle_vs_random_raise [4]) =
     player_color (reached first_free circle_vs_random_raise [4]) \<and>
   shape3 (state (reached first_free circle_vs_random_raise [4])) \<and>
   target_not_empty (state (reached first_free circle_vs_random_raise [4])) 4 \<and>
   env_step first_free (reached first_free circle_vs_random_raise [4]) 4 =
     (Inl RuntimeError, reached first_free circle_vs_random_raise [4])"
proof -
  let ?s = "reached first_free circle_vs_random_raise [4]"
  have m: "illegal_move_mode ?s = ''raise''" by code_simp
  have d: "\<not> done ?s" by code_simp
  have t: "to_play ?s = player_color ?s" by code_simp
  have s: "shape3 (state ?s)" by code_simp
  have n: "target_not_empty (state ?s) 4" by code_simp
  from illegal_move_raise_mode[OF m d t s n, of first_free] m d t s n
  show ?thesis by simp
qed

text \<open>
  Claim C2, what the code does. The agent plays Circle against the scripted opponent and
  moves 0, 2, 3, 7, 8. After the fifth step the board is full (no possible action, nine
  marks, one-hot) with no completed line, and \<open>game_finished\<close> gives 0 on it. That step
  returns reward 0 and done = False, and the session is not done: \<open>done\<close> is set to
  \<open>reward != 0\<close>. The episode only ends by a further, necessarily illegal, step: in mode
  "lose" it costs the agent the reward -1; in mode "raise" every action raises and the
  session never becomes done.
\<close>

theorem draw_is_not_terminal:
  "fst (draw_game ''lose'') ! 4 = Inr (draw_board, 0, False, draw_board) \<and>
   state (snd (draw_game ''lose'')) = draw_board \<and>
   get_possible_actions draw_board = Inr [] \<and>
   marked_cells draw_board = 9 \<and>
   one_hot draw_board \<and>
   game_finished draw_board = Inr 0 \<and>
   \<not> done (snd (draw_game ''lose'')) \<and>
   fst (env_step first_free (snd (draw_game ''lose'')) 0) = Inr (draw_board, - 1, True, draw_board) \<and>
   \<not> done (snd (draw_game ''raise'')) \<and>
   list_all (\<lambda>a. fst (env_step first_free (snd (draw_game ''raise'')) a) = Inl RuntimeError)
     [0, 1, 2, 3, 4, 5, 6, 7, 8]"
  by code_simp

text \<open>
  Claim C3. In a session with illegal-move mode "lose" that is not done and in which it is
  the agent's turn, a \<open>step\<close> whose action addresses a cell that is not empty returns the
  board unchanged, reward -1 and done = True, and changes nothing in the session but
  \<open>done\<close>, which becomes True. (On a one-hot board the cell is not empty exactly when
  it carries a mark of Circle or of Cross: \<open>target_not_empty_one_hot\<close>.)
\<close>

theorem illegal_move_lose_mode:
  assumes "illegal_move_mode self = ''lose''" "\<not> done self" "to_play self = player_color self"
    "shape3 (state self)" "target_not_empty (state self) action"
  shows "env_step randint self action =
           (Inr (state self, - 1, True, state self), self\<lparr>done := True\<rparr>)"
  using assms by (simp add: env_step_def valid_move_not_empty)

theorem illegal_move_lose_mode_witness:
  "illegal_move_mode (reached first_free circle_vs_random [4]) = ''lose'' \<and>
   \<not> done (reached first_free circle_vs_random [4]) \<and>
   to_play (reached first_free circle_vs_random [4]) =
     player_color (reached first_free circle_vs_random [4]) \<and>
   shape3 (state (reached first_free circle_vs_random [4])) \<and>
   target_not_empty (state (reached first_free circle_vs_random [4])) 4 \<and>
   fst (env_step first_free (reached first_free circle_vs_random [4]) 4) =
     Inr ([[[0, 0, 0], [0, 1, 0], [0, 0, 0]],
           [[1, 0, 0], [0, 0, 0], [0, 0, 0]],
           [[0, 1, 1], [1, 0, 1], [1, 1, 1]]], - 1, True,
          [[[0, 0, 0], [0, 1, 0], [0, 0, 0]],
           [[1, 0, 0], [0, 0, 0], [0, 0, 0]],
           [[0, 1, 1], [1, 0, 1], [1, 1, 1]]])"
proof -
  let ?s = "reached first_free circle_vs_random [4]"
  have m: "illegal_move_mode ?s = ''lose''" by code_simp
  have d: "\<not> done ?s" by code_simp
  have t: "to_play ?s = player_color ?s" by code_simp
  have s: "shape3 (state ?s)" by code_simp
  have n: "target_not_empty (state ?s) 4" by code_simp
  have b: "state ?s =
     [[[0, 0, 0], [0, 1, 0], [0, 0, 0]],
      [[1, 0, 0], [0, 0, 0], [0, 0, 0]],
      [[0, 1, 1], [1, 0, 1], [1, 1, 1]]]" by code_simp
  from illegal_move_lose_mode[OF m d t s n, of first_free] m d t s n b
  show ?thesis by simp
qed

text \<open>
  Claim C4. Once a session reached by \<open>reset\<close> and any \<open>step\<close> calls is done, a further
  \<open>step\<close> with any action returns the board unchanged, reward 0 and done = True, and leaves
  every attribute of the session as it was; so does any sequence of further steps.
\<close>

theorem step_after_done_is_noop:
  assumes "done (reached randint self0 as)"
  shows "env_step randint (reached randint self0 as) action =
           (Inr (state (reached randint self0 as), 0, True, state (reached randint self0 as)),
            reached randint self0 as) \<and>
         run_steps randint (reached randint self0 as) later =
           (replicate (length later)
              (Inr (state (reached randint self0 as), 0, True, state (reached randint self0 as))),
            reached randint self0 as)"
proof -
  from reached_turn_ok[of randint self0 as] assms
  have "to_play (reached randint self0 as) = player_color (reached randint self0 as)"
    by (simp add: turn_ok_def)
  with assms show ?thesis by (simp add: env_step_done run_steps_done)
qed

theorem step_after_done_is_noop_witness:
  "done (reached first_free circle_vs_random [4, 0]) \<and>
   env_step first_free (reached first_free circle_vs_random [4, 0]) 7 =
     (Inr (state (reached first_free circle_vs_random [4, 0]), 0, True,
           state (reached first_free circle_vs_random [4, 0])),
      reached first_free circle_vs_random [4, 0]) \<and>
   state (reached first_free circle_vs_random [4, 0]) =
     [[[0, 0, 0], [0, 1, 0], [0, 0, 0]],
      [[1, 0, 0], [0, 0, 0], [0, 0, 0]],
      [[0, 1, 1], [1, 0, 1], [1, 1, 1]]]"
proof -
  have d: "done (reached first_free circle_vs_random [4, 0])" by code_simp
  have b: "state (reached first_free circle_vs_random [4, 0]) =
     [[[0, 0, 0], [0, 1, 0], [0, 0, 0]],
      [[1, 0, 0], [0, 0, 0], [0, 0, 0]],
      [[0, 1, 1], [1, 0, 1], [1, 1, 1]]]" by code_simp
  from step_after_done_is_noop[OF d, of 7 "[]"] d b show ?thesis by simp
qed

text \<open>
  Claim C5. Take any session whose side is Circle or Cross and whose opponent policy, when
  it is a callable, returns only legal actions on one-hot boards (the built-in random
  policy needs no assumption). After \<open>reset\<close> and any sequence of \<open>step\<close> calls, with any
  integers as actions and whether the calls returned or raised, the board has shape
  (3, 3, 3) and in each of its nine cells exactly one of the three layers holds 1 and the
  other two hold 0; and \<open>get_possible_actions\<close> returns a list whose length plus the
  number of marked cells is 9.
\<close>

theorem reachable_board_one_hot:
  assumes "color_ok self" "policy_ok self"
  shows "one_hot (state (reached randint self as)) \<and>
         (\<exists>acts. get_possible_actions (state (reached randint self as)) = Inr acts \<and>
            length acts + marked_cells (state (reached randint self as)) = 9)"
proof -
  have "one_hot (state (reached randint self as))"
    using reached_wf[OF assms] by (simp add: well_formed_def)
  then show ?thesis by (simp add: one_hot_count)
qed

theorem reachable_board_one_hot_witness:
  "color_ok circle_vs_random \<and> policy_ok circle_vs_random \<and>
   one_hot (state (reached first_free circle_vs_random [4, 1, 6])) \<and>
   get_possible_actions (state (reached first_free circle_vs_random [4, 1, 6])) =
     Inr [5, 7, 8] \<and>
   marked_cells (state (reached first_free circle_vs_random [4, 1, 6])) = 6"
proof -
  have c: "color_ok circle_vs_random" by (simp add: color_ok_def circle_vs_random_def)
  have p: "policy_ok circle_vs_random" by (simp add: policy_ok_def circle_vs_random_def)
  have m: "marked_cells (state (reached first_free circle_vs_random [4, 1, 6])) = 6"
    by code_simp
  have a: "get_possible_actions (state (reached first_free circle_vs_random [4, 1, 6])) =
     Inr [5, 7, 8]"
    by code_simp
  from reachable_board_one_hot[OF c p, of first_free "[4, 1, 6]"] c p m a
  show ?thesis by simp
qed

text \<open>
  Claim C6, what the code does. For a Circle agent \<open>_reset\<close> returns the empty board with
  the turn Circle, whatever the session was. For a Cross agent \<open>_reset\<close> calls
  \<open>self.opponent_policy\<close>, which only \<open>_seed\<close> assigns: on a Cross session whose policy is
  not bound yet the call raises AttributeError, no board is returned, the board is left
  empty and the turn is left Circle, which is not the agent's side. That is the state of
  every Cross session at the one \<open>reset\<close> the code performs on it, the call in \<open>__init__\<close>
  before \<open>_seed\<close>; and a session that the constructor returns has the side Circle and
  keeps it through every later \<open>reset\<close> and \<open>step\<close>, so no \<open>reset\<close> of a Cross session
  built by the code ever returns a board.
\<close>

theorem cross_reset_raises_before_seed:
  "(player_color self = CIRCLE \<longrightarrow>
      env_reset randint self =
        (Inr empty_board, self\<lparr>state := empty_board, to_play := CIRCLE, done := False\<rparr>)) \<and>
   (player_color self = CROSS \<and> opponent_policy self = None \<longrightarrow>
      env_reset randint self =
        (Inl AttributeError, self\<lparr>state := empty_board, to_play := CIRCLE, done := False\<rparr>) \<and>
      to_play (snd (env_reset randint self)) \<noteq> player_color (snd (env_reset randint self))) \<and>
   (\<forall>np_random name opp obs mode built as.
      env_init randint np_random name opp obs mode = Inr built \<longrightarrow>
      player_color (reached randint built as) = CIRCLE)"
proof -
  have a: "player_color self = CIRCLE \<Longrightarrow>
      env_reset randint self =
        (Inr empty_board, self\<lparr>state := empty_board, to_play := CIRCLE, done := False\<rparr>)"
    by (rule env_reset_circle)
  have b: "env_reset randint self =
        (Inl AttributeError, self\<lparr>state := empty_board, to_play := CIRCLE, done := False\<rparr>) \<and>
      to_play (snd (env_reset randint self)) \<noteq> player_color (snd (env_reset randint self))"
    if "player_color self = CROSS" "opponent_policy self = None"
    using that by (simp add: env_reset_cross_unbound)
  have c: "player_color (reached randint built as) = CIRCLE"
    if "env_init randint np_random name opp obs mode = Inr built"
    for np_random name opp obs mode built as
    using env_init_Inr[OF that] by (auto simp: reached_player_color)
  from a b c show ?thesis by blast
qed

theorem cross_reset_raises_before_seed_witness:
  "player_color cross_before_seed = CROSS \<and> opponent_policy cross_before_seed = None \<and>
   fst (env_reset first_free cross_before_seed) = Inl AttributeError \<and>
   state (snd (env_reset first_free cross_before_seed)) = empty_board \<and>
   to_play (snd (env_reset first_free cross_before_seed)) = CIRCLE \<and>
   (case env_init first_free unit_np_random ''cross'' (Opponent_str ''random'')
           ''numpy3c'' ''lose'' of
      Inl e \<Rightarrow> e = AttributeError
    | Inr built \<Rightarrow> False)"
proof -
  have x: "player_color cross_before_seed = CROSS" by (simp add: cross_before_seed_def)
  have n: "opponent_policy cross_before_seed = None" by (simp add: cross_before_seed_def)
  have i: "case env_init first_free unit_np_random ''cross'' (Opponent_str ''random'')
           ''numpy3c'' ''lose'' of
      Inl e \<Rightarrow> e = AttributeError
    | Inr built \<Rightarrow> False" by code_simp
  from cross_reset_raises_before_seed[of cross_before_seed first_free] x n
  have "env_reset first_free cross_before_seed =
     (Inl AttributeError,
      cross_before_seed\<lparr>state := empty_board, to_play := CIRCLE, done := False\<rparr>)"
    by blast
  with x n i show ?thesis by simp
qed

text \<open>
  Claim C7. On an array of shape (3, 3, 3) with cells 0 or 1, \<open>game_finished\<close> scans
  exactly the eight winning lines: the three rows, the three columns and the two
  diagonals, in this order. For each line the pair of products that the inner loop
  computes is 1 for a player exactly when all three cells of the line carry that
  player's marker, and 0 otherwise. The result is 1 exactly when Circle (layer 0) has a
  completed line and Cross (layer 1) has none, -1 exactly when Cross has one and Circle
  has none, and 0 exactly when neither has one. In particular Circle on (0,0), (0,1),
  (0,2) with no completed Cross line gives 1.
\<close>

theorem game_finished_scans_eight_lines:
  assumes "shape3 b" "binary b"
  shows "win_lines = map row_line [0, 1, 2] @ map column_line [0, 1, 2] @ diagonal_lines \<and>
         length win_lines = 8 \<and>
         list_all (\<lambda>line. line_products b line (1, 1) =
            Inr (if line_won b 1 line then 1 else 0, if line_won b 0 line then 1 else 0))
           win_lines \<and>
         (game_finished b = Inr 1 \<longleftrightarrow> has_line b 0 \<and> \<not> has_line b 1) \<and>
         (game_finished b = Inr (- 1) \<longleftrightarrow> has_line b 1 \<and> \<not> has_line b 0) \<and>
         (game_finished b = Inr 0 \<longleftrightarrow> \<not> has_line b 0 \<and> \<not> has_line b 1) \<and>
         (line_won b 0 [(0, 0), (0, 1), (0, 2)] \<and> \<not> has_line b 1 \<longrightarrow> game_finished b = Inr 1)"
proof -
  have a: "win_lines = map row_line [0, 1, 2] @ map column_line [0, 1, 2] @ diagonal_lines"
    using win_lines_eight by (simp add: eight_lines_def)
  have b: "length win_lines = 8" by (simp add: win_lines_def)
  have c: "list_all (\<lambda>line. line_products b line (1, 1) =
            Inr (if line_won b 1 line then 1 else 0, if line_won b 0 line then 1 else 0))
           win_lines"
    unfolding list_all_iff
  proof
    fix line assume "line \<in> set win_lines"
    with in_grid_eight have g: "in_grid line" by (simp add: win_lines_eight list_all_iff)
    show "line_products b line (1, 1) =
            Inr (if line_won b 1 line then 1 else 0, if line_won b 0 line then 1 else 0)"
      by (simp add: line_products_shape3[OF assms(1) g] line_value_binary[OF assms g])
  qed
  have r0: "[(0, 0), (0, 1), (0, 2)] \<in> set eight_lines"
    by (simp add: eight_lines_def row_line_def)
  have e: "line_won b 0 [(0, 0), (0, 1), (0, 2)] \<Longrightarrow> has_line b 0"
    unfolding has_line_def list_ex_iff using r0 by blast
  show ?thesis
    using a b c e by (auto simp: game_finished_binary[OF assms])
qed

theorem game_finished_scans_eight_lines_witness:
  "shape3 row0_circle_board \<and> binary row0_circle_board \<and>
   game_finished row0_circle_board = Inr 1"
proof -
  have s: "shape3 row0_circle_board" by code_simp
  have bi: "binary row0_circle_board" by code_simp
  have w: "line_won row0_circle_board 0 [(0, 0), (0, 1), (0, 2)]" by code_simp
  have n: "\<not> has_line row0_circle_board 1" by code_simp
  from game_finished_scans_eight_lines[OF s bi] w n
  have "game_finished row0_circle_board = Inr 1" by blast
  with s bi show ?thesis by simp
qed

text \<open>
  Claim C8. On an array of shape (3, 3, 3) with cells 0 or 1 in which Circle and Cross both
  have a completed line, \<open>game_finished\<close> raises the error "Both players got a winning
  line" and returns none of 0, 1, -1. The fault is not handled inside \<open>_step\<close>: a step
  with a legal action on a session that is not done and holds such a board never returns
  a result; it raises this error, unless the call of the opponent policy raised first,
  and then that fault is the one raised.
\<close>

theorem both_players_win_raises:
  assumes "shape3 b" "binary b" "has_line b 0" "has_line b 1"
  shows "game_finished b = Inl Error_both_players_win \<and>
     (\<forall>self action.
        state self = b \<and> to_play self = player_color self \<and> color_ok self \<and> \<not> done self \<and>
        valid_move b action = Inr True \<longrightarrow>
        (\<exists>e. fst (env_step randint self action) = Inl e \<and>
           (e = Error_both_players_win \<or>
            fst (call_opponent_policy randint
                  (self\<lparr>state := snd (make_move b action (player_color self))\<rparr>)) = Inl e)))"
proof -
  have gf: "game_finished b' = Inl Error_both_players_win"
    if "shape3 b'" "binary b'" "has_line b' 0" "has_line b' 1" for b'
    using that by (simp add: game_finished_binary)
  have step: "\<exists>e. fst (env_step randint self action) = Inl e \<and>
           (e = Error_both_players_win \<or>
            fst (call_opponent_policy randint
                  (self\<lparr>state := snd (make_move b action (player_color self))\<rparr>)) = Inl e)"
    if h: "state self = b" "to_play self = player_color self" "color_ok self" "\<not> done self"
      "valid_move b action = Inr True" for self :: "'a env" and action
  proof -
    have pc: "player_color self = 0 \<or> player_color self = 1"
      using h(3) by (simp add: color_ok_def)
    from make_move_keeps_marks[OF assms(1,2) h(5) pc] obtain b' where
      mm: "make_move b action (player_color self) = (None, b')"
      and s': "shape3 b'" and bi': "binary b'"
      and keep: "\<forall>l<2. \<forall>r<3. \<forall>c<3. b ! l ! r ! c = 1 \<longrightarrow> b' ! l ! r ! c = 1"
      by blast
    have "has_line b' 0" using assms(3) keep by (auto intro: has_line_mono)
    moreover have "has_line b' 1" using assms(4) keep by (auto intro: has_line_mono)
    ultimately have gf': "game_finished b' = Inl Error_both_players_win"
      using s' bi' by (simp add: gf)
    obtain r self1 where call: "call_opponent_policy randint (self\<lparr>state := b'\<rparr>) = (r, self1)"
      by (cases "call_opponent_policy randint (self\<lparr>state := b'\<rparr>)")
    from call_opponent_policy_frame[OF call] have st1: "state self1 = b'" by auto
    have eq: "env_step randint self action =
        (case r of
           Inl e \<Rightarrow> (Inl e, self1)
         | Inr None \<Rightarrow> step_reward self1
         | Inr (Some a) \<Rightarrow>
             (case game_finished (state self1) of
                Inl e \<Rightarrow> (Inl e, self1)
              | Inr v \<Rightarrow>
                  if v = 0 then
                    (case make_move (state self1) a (1 - player_color self1) of
                       (Some e, b') \<Rightarrow> (Inl e, self1\<lparr>state := b'\<rparr>)
                     | (None, b') \<Rightarrow> step_reward (self1\<lparr>state := b'\<rparr>))
                  else step_reward self1))"
      using h(2,4,5) mm call unfolding h(1)[symmetric] by (rule env_step_legal)
    show ?thesis
      unfolding eq mm snd_conv call
      by (auto simp: st1 gf' step_reward_def split: sum.splits option.splits)
  qed
  from gf[OF assms] step show ?thesis by blast
qed

theorem both_players_win_raises_witness:
  "shape3 both_win_board \<and> binary both_win_board \<and>
   has_line both_win_board 0 \<and> has_line both_win_board 1 \<and>
   game_finished both_win_board = Inl Error_both_players_win \<and>
   fst (env_step first_free (circle_vs_random\<lparr>state := both_win_board\<rparr>) 8) =
     Inl Error_both_players_win"
proof -
  have s: "shape3 both_win_board" by code_simp
  have bi: "binary both_win_board" by code_simp
  have c: "has_line both_win_board 0" by code_simp
  have x: "has_line both_win_board 1" by code_simp
  note w = both_players_win_raises[OF s bi c x, of first_free]
  have "fst (env_step first_free (circle_vs_random\<lparr>state := both_win_board\<rparr>) 8) =
     Inl Error_both_players_win" by code_simp
  with w s bi c x show ?thesis by simp
qed

text \<open>
  Claim C9. Two sessions are constructed with the same arguments and the "random"
  opponent; the constructions may have drawn different generators (no seed is given to
  the constructor). Both are then seeded with the same seed, for which the seeding
  function gives the same generator. Then \<open>seed\<close> returns the same list on both, and
  any sequence of actions fed to both produces the same sequence of step outcomes
  (boards, rewards, done flags, or faults) and leaves the two sessions equal.
\<close>

theorem same_seed_same_episode:
  assumes "env_init randint np1 name (Opponent_str ''random'') obs mode = Inr self1"
    "env_init randint np2 name (Opponent_str ''random'') obs mode = Inr self2"
    "np1 (Some k) = Inr (g, k')" "np2 (Some k) = Inr (g, k')"
  shows "fst (env_seed np1 self1 (Some k)) = fst (env_seed np2 self2 (Some k)) \<and>
         run_steps randint (snd (env_seed np1 self1 (Some k))) as =
         run_steps randint (snd (env_seed np2 self2 (Some k))) as"
proof -
  from env_init_Inr[OF assms(1)] obtain p1 where
    s1: "self1 = \<lparr>player_color = CIRCLE, opponent = Opponent_str ''random'',
                  observation_type = obs, illegal_move_mode = mode,
                  opponent_policy = Some p1, state = empty_board,
                  to_play = CIRCLE, done = False\<rparr>"
    by blast
  from env_init_Inr[OF assms(2)] obtain p2 where
    s2: "self2 = \<lparr>player_color = CIRCLE, opponent = Opponent_str ''random'',
                  observation_type = obs, illegal_move_mode = mode,
                  opponent_policy = Some p2, state = empty_board,
                  to_play = CIRCLE, done = False\<rparr>"
    by blast
  have o1: "opponent self1 = Opponent_str ''random''" by (simp add: s1)
  have o2: "opponent self2 = Opponent_str ''random''" by (simp add: s2)
  have e1: "env_seed np1 self1 (Some k) =
      (Inr [k'], self1\<lparr>opponent_policy := Some (Bound_random g)\<rparr>)"
    using o1 assms(3) by (rule env_seed_random)
  have e2: "env_seed np2 self2 (Some k) =
      (Inr [k'], self2\<lparr>opponent_policy := Some (Bound_random g)\<rparr>)"
    using o2 assms(4) by (rule env_seed_random)
  show ?thesis
    unfolding e1 e2 by (simp add: s1 s2)
qed

theorem same_seed_same_episode_witness:
  "\<exists>self1 self2.
     env_init lcg_randint np_random_a ''circle'' (Opponent_str ''random'') ''numpy3c'' ''lose'' =
       Inr self1 \<and>
     env_init lcg_randint np_random_b ''circle'' (Opponent_str ''random'') ''numpy3c'' ''lose'' =
       Inr self2 \<and>
     np_random_a (Some 7) = Inr (7, 7) \<and> np_random_b (Some 7) = Inr (7, 7) \<and>
     fst (run_steps lcg_randint self1 [4]) \<noteq> fst (run_steps lcg_randint self2 [4]) \<and>
     run_steps lcg_randint (snd (env_seed np_random_a self1 (Some 7))) [4, 8] =
     run_steps lcg_randint (snd (env_seed np_random_b self2 (Some 7))) [4, 8]"
proof -
  let ?i1 = "env_init lcg_randint np_random_a ''circle'' (Opponent_str ''random'')
               ''numpy3c'' ''lose''"
  let ?i2 = "env_init lcg_randint np_random_b ''circle'' (Opponent_str ''random'')
               ''numpy3c'' ''lose''"
  have "case ?i1 of Inl e \<Rightarrow> False | Inr self1 \<Rightarrow>
          (case ?i2 of Inl e \<Rightarrow> False | Inr self2 \<Rightarrow>
             fst (run_steps lcg_randint self1 [4]) \<noteq> fst (run_steps lcg_randint self2 [4]))"
    by code_simp
  then obtain self1 self2 where i: "?i1 = Inr self1" "?i2 = Inr self2"
    and d: "fst (run_steps lcg_randint self1 [4]) \<noteq> fst (run_steps lcg_randint self2 [4])"
    by (auto split: sum.splits)
  have a: "np_random_a (Some 7) = Inr (7, 7)" by (simp add: np_random_a_def)
  have b: "np_random_b (Some 7) = Inr (7, 7)" by (simp add: np_random_b_def)
  from same_seed_same_episode[OF i a b, of "[4, 8]"] i d a b show ?thesis by blast
qed

text \<open>
  Claim C10. Constructing a session with player_color 'cross' always fails, whatever the
  other arguments, the generator and the seeding function are: \<open>__init__\<close> calls \<open>reset\<close>
  before \<open>_seed\<close> has bound \<open>opponent_policy\<close>, and \<open>_reset\<close> for a Cross agent calls the
  policy. With a valid observation type and illegal-move mode the fault is the
  AttributeError of that call (with invalid ones the \<open>assert\<close> before it fails). Every
  session the constructor returns has the side Circle.
\<close>

theorem cross_construction_fails:
  "(\<exists>e. env_init randint np_random ''cross'' opp obs mode = Inl e) \<and>
   (obs = ''numpy3c'' \<and> (mode = ''lose'' \<or> mode = ''raise'') \<longrightarrow>
      env_init randint np_random ''cross'' opp obs mode = Inl AttributeError) \<and>
   (\<forall>name self. env_init randint np_random name opp obs mode = Inr self \<longrightarrow>
      player_color self = CIRCLE)"
proof -
  have a: "\<exists>e. env_init randint np_random ''cross'' opp obs mode = Inl e"
  proof (cases "env_init randint np_random ''cross'' opp obs mode")
    case (Inl e)
    then show ?thesis by simp
  next
    case (Inr self)
    from env_init_Inr[OF this] show ?thesis by simp
  qed
  have b: "env_init randint np_random ''cross'' opp obs mode = Inl AttributeError"
    if "obs = ''numpy3c''" "mode = ''lose'' \<or> mode = ''raise''"
    using that
    by (auto simp: env_init_def colormap_cross env_reset_def Let_def call_opponent_policy_def)
  have c: "player_color self = CIRCLE"
    if "env_init randint np_random name opp obs mode = Inr self" for name self
    using env_init_Inr[OF that] by auto
  from a b c show ?thesis by blast
qed

theorem cross_construction_fails_witness:
  "env_init first_free unit_np_random ''cross'' (Opponent_str ''random'') ''numpy3c'' ''lose'' =
     Inl AttributeError \<and>
   (\<exists>self. env_init first_free unit_np_random ''circle'' (Opponent_str ''random'')
             ''numpy3c'' ''lose'' = Inr self \<and> player_color self = CIRCLE)"
proof -
  note w = cross_construction_fails[of first_free unit_np_random "Opponent_str ''random''"
      "''numpy3c''" "''lose''"]
  have "case env_init first_free unit_np_random ''circle'' (Opponent_str ''random'')
             ''numpy3c'' ''lose'' of Inl e \<Rightarrow> False | Inr self \<Rightarrow> True"
    by code_simp
  then obtain self where "env_init first_free unit_np_random ''circle'' (Opponent_str ''random'')
             ''numpy3c'' ''lose'' = Inr self"
    by (auto split: sum.splits)
  with w show ?thesis by auto
qed

end
